theory Spec2Isabelle
  imports Complex_Main "HOL-Library.Sublist"
begin

chapter \<open>The program\<close>

section \<open>Chunking an array: \<open>batchArray\<close>\<close>

text \<open>
  \<^verbatim>\<open>
  const batchArray = <T>(array: T[], batchSize: number): T[][] => {
    const batches: T[][] = [];
    for (let i = 0; i < array.length; i += batchSize) {
      batches.push(array.slice(i, i + batchSize));
    }
    return batches;
  };
  \<close>
  The same function stands in three scripts (the launcher buy script, the many-to-one
  sweep and the bundled sell). Indices and the batch size are natural numbers here; every
  call site passes a positive integer constant (4 or 6). \<open>Array.prototype.slice\<close>
  clamps its end to the length of the array.
\<close>

definition array_slice :: "'a list \<Rightarrow> nat \<Rightarrow> nat \<Rightarrow> 'a list" where
  "array_slice array start stop = take (stop - start) (drop start array)"

text \<open>
  With \<open>batchSize = 0\<close> and a non-empty array the loop never ends: the loop is a
  partial function, and not returning is the value \<open>None\<close>.
\<close>

partial_function (option) batchArray_loop ::
  "'a list \<Rightarrow> nat \<Rightarrow> nat \<Rightarrow> 'a list list \<Rightarrow> 'a list list option" where
  "batchArray_loop array batchSize i batches =
     (if i < length array
      then batchArray_loop array batchSize (i + batchSize)
             (batches @ [array_slice array i (i + batchSize)])
      else Some batches)"

definition batchArray :: "'a list \<Rightarrow> nat \<Rightarrow> 'a list list option" where
  "batchArray array batchSize = batchArray_loop array batchSize 0 []"

text \<open>The chunks of a list, by structural reasoning: the reference the loop is compared with.\<close>

function chunks :: "nat \<Rightarrow> 'a list \<Rightarrow> 'a list list" where
  "chunks n xs = (if n = 0 \<or> xs = [] then [] else take n xs # chunks n (drop n xs))"
  by pat_completeness auto
termination
  by (relation "measure (\<lambda>(n, xs). length xs)") auto

declare chunks.simps [simp del]

section \<open>Bounded retry: \<open>retryTransaction\<close> and \<open>retryAsync\<close>\<close>

text \<open>
  A value thrown by the wrapped operation: an instance of \<open>Error\<close> with its message;
  \<open>null\<close>; \<open>undefined\<close>; or any other value, for which \<open>instanceof Error\<close> is
  false, with the text that its \<open>message\<close> property prints in a template
  (\<open>undefined\<close> when it has none).
\<close>

datatype thrown = Error string | NonError string | ThrownNull | ThrownUndefined

text \<open>
  Reading \<open>error.message\<close>: a property of \<open>null\<close> or of \<open>undefined\<close> cannot be
  read, and the attempt throws a \<open>TypeError\<close>.
\<close>

fun read_message :: "thrown \<Rightarrow> thrown + string" where
  "read_message (Error msg) = Inr msg"
| "read_message (NonError msg) = Inr msg"
| "read_message ThrownNull =
     Inl (Error (''Cannot read properties of null (reading '' @ [CHR 0x27] @ ''message''
                 @ [CHR 0x27] @ '')''))"
| "read_message ThrownUndefined =
     Inl (Error (''Cannot read properties of undefined (reading '' @ [CHR 0x27] @ ''message''
                 @ [CHR 0x27] @ '')''))"

text \<open>\<open>String.prototype.includes\<close>: the second string occurs in the first.\<close>

fun str_includes :: "string \<Rightarrow> string \<Rightarrow> bool" where
  "str_includes [] t = (t = [])"
| "str_includes (c # s) t = (prefix t (c # s) \<or> str_includes s t)"

text \<open>
  The test of the catch block of \<open>retryTransaction\<close>:
  \<^verbatim>\<open>error instanceof Error && error.message.includes("not a recent slot")\<close>
\<close>

fun recoverable :: "thrown \<Rightarrow> bool" where
  "recoverable (Error msg) = str_includes msg ''not a recent slot''"
| "recoverable (NonError msg) = False"
| "recoverable ThrownNull = False"
| "recoverable ThrownUndefined = False"

text \<open>
  \<^verbatim>\<open>
  const retryTransaction = async (transactionFn: () => Promise<string>, retries = 3) => {
    for (let attempt = 1; attempt <= retries; attempt++) {
      try {
        return await transactionFn();
      } catch (error) {
        if (error instanceof Error && error.message.includes("not a recent slot")
            && attempt < retries) {
          // retry
        } else {
          throw error; // Rethrow non-recoverable errors or on final attempt
        }
      }
    }
    throw new Error("Transaction failed after all retries.");
  };
  \<close>
  The wrapped operation has effects, so its outcome may change from one call to the next:
  \<open>transactionFn k\<close> is the outcome of its call number \<open>k\<close> (from 0), \<open>Inl\<close> a
  thrown value. The loop threads the number of calls made so far and returns it with the
  result.
\<close>

function retryTransaction_loop ::
  "(nat \<Rightarrow> thrown + 'a) \<Rightarrow> nat \<Rightarrow> nat \<Rightarrow> nat \<Rightarrow> (thrown + 'a) \<times> nat" where
  "retryTransaction_loop transactionFn retries attempt calls =
     (if attempt \<le> retries then
        (case transactionFn calls of
           Inr v \<Rightarrow> (Inr v, Suc calls)
         | Inl error \<Rightarrow>
             if recoverable error \<and> attempt < retries
             then retryTransaction_loop transactionFn retries (attempt + 1) (Suc calls)
             else (Inl error, Suc calls))
      else (Inl (Error ''Transaction failed after all retries.''), calls))"
  by pat_completeness auto
termination
  by (relation "measure (\<lambda>(transactionFn, retries, attempt, calls). Suc retries - attempt)") auto

declare retryTransaction_loop.simps [simp del]

definition retryTransaction :: "(nat \<Rightarrow> thrown + 'a) \<Rightarrow> nat \<Rightarrow> (thrown + 'a) \<times> nat" where
  "retryTransaction transactionFn retries = retryTransaction_loop transactionFn retries 1 0"

text \<open>
  \<^verbatim>\<open>
  const retryAsync = async (fn: () => Promise<any>, retries: number, delayMs: number) => {
    for (let i = 0; i < retries; i++) {
      try {
        return await fn();
      } catch (error) {
        console.warn(`Retry ${i + 1} failed: ${error.message}`);
        if (i === retries - 1) {
          throw new Error(`Exceeded maximum retries for operation: ${error.message}`);
        }
        await new Promise((resolve) => setTimeout(resolve, delayMs));
      }
    }
  };
  \<close>
  Every thrown value whose \<open>message\<close> can be read is retried; the \<open>TypeError\<close> of
  reading it from \<open>null\<close> or \<open>undefined\<close> is thrown inside the catch block and leaves
  the function at once. When the loop body never runs the function returns
  \<open>undefined\<close>: the result \<open>Inr None\<close>. The delay between attempts changes no value.
\<close>

function retryAsync_loop ::
  "(nat \<Rightarrow> thrown + 'a) \<Rightarrow> nat \<Rightarrow> nat \<Rightarrow> nat \<Rightarrow> (thrown + 'a option) \<times> nat" where
  "retryAsync_loop fn retries i calls =
     (if i < retries then
        (case fn calls of
           Inr v \<Rightarrow> (Inr (Some v), Suc calls)
         | Inl error \<Rightarrow>
             (case read_message error of
                Inl typeError \<Rightarrow> (Inl typeError, Suc calls)
              | Inr message \<Rightarrow>
                  if i = retries - 1
                  then (Inl (Error (''Exceeded maximum retries for operation: '' @ message)),
                        Suc calls)
                  else retryAsync_loop fn retries (i + 1) (Suc calls)))
      else (Inr None, calls))"
  by pat_completeness auto
termination
  by (relation "measure (\<lambda>(fn, retries, i, calls). retries - i)") auto

declare retryAsync_loop.simps [simp del]

definition retryAsync :: "(nat \<Rightarrow> thrown + 'a) \<Rightarrow> nat \<Rightarrow> (thrown + 'a option) \<times> nat" where
  "retryAsync fn retries = retryAsync_loop fn retries 0 0"

text \<open>An outcome after which \<open>retryTransaction\<close> may try again: a recoverable error.\<close>

definition retried :: "thrown + 'a \<Rightarrow> bool" where
  "retried outcome = (case outcome of Inl error \<Rightarrow> recoverable error | Inr v \<Rightarrow> False)"

section \<open>Waiting for a lookup table: \<open>fetchLookupTable\<close> and \<open>fetchAndValidateALT\<close>\<close>

text \<open>
  One call of \<open>connection.getAddressLookupTable\<close>: the response carries the table
  account (\<open>value\<close> is set), or carries \<open>null\<close> (the network cannot resolve the table
  yet), or the call throws.
\<close>

datatype 'a poll = Value 'a | Null | Throws

text \<open>
  \<^verbatim>\<open>
  const fetchLookupTable = async (connection, lookupTableAddress, retries = 10, delayMs) => {
    for (let i = 0; i < retries; i++) {
      try {
        const lookupTable = await connection.getAddressLookupTable(lookupTableAddress);
        if (lookupTable.value) {
          return lookupTable.value;
        }
      } catch (error) {
        console.error(`Error fetching ALT on retry ${i + 1}:`, error);
      }
      await delay(delayMs);
    }
    throw new Error('Failed to fetch the Address Lookup Table account after retries.');
  };
  \<close>
  \<open>getAddressLookupTable k\<close> is the outcome of poll number \<open>k\<close> (from 0). The loop
  threads the number of polls made and returns it with the result.
\<close>

function fetchLookupTable_loop ::
  "(nat \<Rightarrow> 'a poll) \<Rightarrow> nat \<Rightarrow> nat \<Rightarrow> nat \<Rightarrow> (thrown + 'a) \<times> nat" where
  "fetchLookupTable_loop getAddressLookupTable retries i polls =
     (if i < retries then
        (case getAddressLookupTable polls of
           Value v \<Rightarrow> (Inr v, Suc polls)
         | Null \<Rightarrow> fetchLookupTable_loop getAddressLookupTable retries (i + 1) (Suc polls)
         | Throws \<Rightarrow> fetchLookupTable_loop getAddressLookupTable retries (i + 1) (Suc polls))
      else (Inl (Error ''Failed to fetch the Address Lookup Table account after retries.''),
            polls))"
  by pat_completeness auto
termination
  by (relation "measure (\<lambda>(getAddressLookupTable, retries, i, polls). retries - i)") auto

declare fetchLookupTable_loop.simps [simp del]

definition fetchLookupTable :: "(nat \<Rightarrow> 'a poll) \<Rightarrow> nat \<Rightarrow> (thrown + 'a) \<times> nat" where
  "fetchLookupTable getAddressLookupTable retries =
     fetchLookupTable_loop getAddressLookupTable retries 0 0"

text \<open>
  \<^verbatim>\<open>
  const fetchAndValidateALT = async (connection, altAddress, retries = 5, delayMs = 1000)
      : Promise<void> => {
    for (let attempt = 1; attempt <= retries; attempt++) {
      try {
        const lookupTable = await connection.getAddressLookupTable(altAddress);
        if (lookupTable?.value) {
          return;
        } else {
          console.warn(`ALT not available yet (attempt ${attempt}/${retries}). Retrying...`);
        }
      } catch (error) {
        console.error(`Error fetching ALT (attempt ${attempt}/${retries}):`, error);
      }
      await new Promise((resolve) => setTimeout(resolve, delayMs));
    }
    throw new Error(`Failed to fetch or validate ALT at address ${altAddress.toBase58()}`);
  };
  \<close>
  This variant returns no value; \<open>toBase58\<close> of the address is a parameter.
\<close>

function fetchAndValidateALT_loop ::
  "(nat \<Rightarrow> 'a poll) \<Rightarrow> string \<Rightarrow> nat \<Rightarrow> nat \<Rightarrow> nat \<Rightarrow> (thrown + unit) \<times> nat" where
  "fetchAndValidateALT_loop getAddressLookupTable altAddress retries attempt polls =
     (if attempt \<le> retries then
        (case getAddressLookupTable polls of
           Value v \<Rightarrow> (Inr (), Suc polls)
         | Null \<Rightarrow>
             fetchAndValidateALT_loop getAddressLookupTable altAddress retries (attempt + 1)
               (Suc polls)
         | Throws \<Rightarrow>
             fetchAndValidateALT_loop getAddressLookupTable altAddress retries (attempt + 1)
               (Suc polls))
      else (Inl (Error (''Failed to fetch or validate ALT at address '' @ altAddress)), polls))"
  by pat_completeness auto
termination
  by (relation
        "measure (\<lambda>(getAddressLookupTable, altAddress, retries, attempt, polls).
           Suc retries - attempt)") auto

declare fetchAndValidateALT_loop.simps [simp del]

definition fetchAndValidateALT ::
  "(nat \<Rightarrow> 'a poll) \<Rightarrow> string \<Rightarrow> nat \<Rightarrow> (thrown + unit) \<times> nat" where
  "fetchAndValidateALT getAddressLookupTable altAddress retries =
     fetchAndValidateALT_loop getAddressLookupTable altAddress retries 1 0"

text \<open>The first poll, among the first \<open>n\<close>, that finds the table, if there is one.\<close>

fun first_resolved :: "(nat \<Rightarrow> 'a poll) \<Rightarrow> nat \<Rightarrow> (nat \<times> 'a) option" where
  "first_resolved p 0 = None"
| "first_resolved p (Suc n) =
     (case first_resolved p n of
        Some r \<Rightarrow> Some r
      | None \<Rightarrow> (case p n of Value v \<Rightarrow> Some (n, v) | Null \<Rightarrow> None | Throws \<Rightarrow> None))"

definition unresolved :: "'a poll \<Rightarrow> bool" where
  "unresolved r = (case r of Value v \<Rightarrow> False | Null \<Rightarrow> True | Throws \<Rightarrow> True)"

section \<open>The relay path: \<open>onBundleResult\<close>, \<open>build_bundle\<close>, \<open>bull_dozer\<close>, \<open>bundle\<close>\<close>

subsection \<open>Choosing the tip account\<close>

text \<open>
  \<^verbatim>\<open>
  const accounts = await search.getTipAccounts();
  const _tipAccount = accounts[Math.min(Math.floor(Math.random() * accounts.length), 3)];
  const tipAccount = new PublicKey(_tipAccount);
  \<close>
  The draw of \<open>Math.random()\<close> is a number \<open>r\<close> with \<open>0 \<le> r < 1\<close>, taken here as a
  real number. Indexing past the end of the array gives \<open>undefined\<close>, which
  \<open>new PublicKey\<close> refuses: the result \<open>None\<close>.
\<close>

definition tip_index :: "nat \<Rightarrow> real \<Rightarrow> nat" where
  "tip_index n r = min (nat \<lfloor>r * real n\<rfloor>) 3"

definition tip_account :: "'k list \<Rightarrow> real \<Rightarrow> 'k option" where
  "tip_account accounts r =
     (let idx = tip_index (length accounts) r
      in if idx < length accounts then Some (accounts ! idx) else None)"

text \<open>
  \<^verbatim>\<open>
  const tipAccounts = [ 'Cw8C...', 'DttW...', '96gY...', '3AVi...',
                        'HFqU...', 'ADaU...', 'ADuU...', 'DfXy...' ];
  const jitoFeeWallet =
    new PublicKey(tipAccounts[Math.floor(tipAccounts.length * Math.random())]);
  \<close>
  The list of \<open>jitoWithAxios\<close> is fixed in the code.
\<close>

definition tipAccounts :: "string list" where
  "tipAccounts =
     [''Cw8CFyM9FkoMi7K7Crf6HNQqf4uEMzpKw6QNghXLvLkY'',
      ''DttWaMuVvTiduZRnguLF7jNxTgiMBZ1hyAumKUiL2KRL'',
      ''96gYZGLnJYVFmbjzopPSU6QiEV5fGqZNyN9nmNhvrZU5'',
      ''3AVi9Tg9Uo68tJfuvoKvqKNWKkC5wPdSSdeBnizKZ6jT'',
      ''HFqU5x63VTqvQss8hp11i4wVV8bD44PvwucfZ2bU7gRe'',
      ''ADaUMid9yfUytqMBgopwjb2DTLSokTSzL1zt6iGPaS49'',
      ''ADuUkR4vqLUMWXxW9gh6D6L8pMSawimctcNZ5pGwDcEt'',
      ''DfXygSm4jCyNCybVYYK6DwvWqjKee8pbDmJGcLWNDXjh'']"

definition jitoFeeWallet :: "real \<Rightarrow> string option" where
  "jitoFeeWallet r =
     (let idx = nat \<lfloor>real (length tipAccounts) * r\<rfloor>
      in if idx < length tipAccounts then Some (tipAccounts ! idx) else None)"

subsection \<open>Waiting for the relay's result\<close>

text \<open>
  One message of the relay's result stream: \<open>accepted\<close> (with its slot) and
  \<open>rejected\<close> (with its reason) are set or absent.
\<close>

record bundle_result =
  bundleId :: string
  accepted :: "nat option"
  rejected :: "string option"

datatype stream_item = Result bundle_result | StreamError

text \<open>
  \<^verbatim>\<open>
  export const onBundleResult = (c: SearcherClient): Promise<number> => {
    let first = 0;
    let isResolved = false;
    return new Promise((resolve) => {
      setTimeout(() => {
        resolve(first);
        isResolved = true;
      }, 30000);
      c.onBundleResult(
        (result: any) => {
          if (isResolved) return first;
          const isAccepted = result.accepted;
          const isRejected = result.rejected;
          if (isAccepted) {
            first += 1;
            isResolved = true;
            resolve(first);
          } else if (isRejected) {
            console.error(...);   // log only
          } else {
            console.log(...);     // log only
          }
        },
        (e: any) => { console.error("Error in onBundleResult:", e); }
      );
    });
  };
  \<close>
  The state of the closure: the two variables and the promise, which keeps the value of
  the first \<open>resolve\<close>. The callbacks run one at a time, in the order of their events.
  The 30-second timer fires once: an execution is the list of stream items delivered
  before it fires and the list delivered afterwards.
\<close>

record waiter =
  first :: nat
  isResolved :: bool
  settled :: "nat option"

definition resolve :: "nat \<Rightarrow> waiter \<Rightarrow> waiter" where
  "resolve v s = (case settled s of None \<Rightarrow> s\<lparr>settled := Some v\<rparr> | Some w \<Rightarrow> s)"

definition on_timeout :: "waiter \<Rightarrow> waiter" where
  "on_timeout s = (resolve (first s) s)\<lparr>isResolved := True\<rparr>"

fun on_item :: "stream_item \<Rightarrow> waiter \<Rightarrow> waiter" where
  "on_item (Result result) s =
     (if isResolved s then s
      else if accepted result \<noteq> None then
        (let s1 = s\<lparr>first := first s + 1\<rparr>;
             s2 = s1\<lparr>isResolved := True\<rparr>
         in resolve (first s2) s2)
      else if rejected result \<noteq> None then s
      else s)"
| "on_item StreamError s = s"

definition onBundleResult :: "stream_item list \<Rightarrow> stream_item list \<Rightarrow> nat option" where
  "onBundleResult early late =
     settled (fold on_item late
       (on_timeout (fold on_item early \<lparr>first = 0, isResolved = False, settled = None\<rparr>)))"

text \<open>An accepted result is among the items: the test \<open>isAccepted\<close> holds for one of them.\<close>

definition accepts :: "stream_item list \<Rightarrow> bool" where
  "accepts items =
     list_ex (\<lambda>item. case item of Result result \<Rightarrow> accepted result \<noteq> None | StreamError \<Rightarrow> False)
       items"

subsection \<open>Building and submitting one bundle\<close>

text \<open>
  The class \<open>Bundle\<close> belongs to the library jito-ts, which is not part of the
  repository. Its constructor and the two methods the code calls are modelled from the
  library:
  \<^verbatim>\<open>
  constructor(txs: VersionedTransaction[], transactionLimit: number)
  addTransactions(...transactions: VersionedTransaction[]): Bundle | Error {
    const numTransactions = this.transactions.length + transactions.length;
    if (numTransactions > this.transactionLimit) {
      return new Error(`${numTransactions} exceeds transaction limit of ${this.transactionLimit}`);
    }
    this.transactions.push(...transactions);
    return this;
  }
  addTipTx(keypair, tipLamports, tipAccount, recentBlockhash): Bundle | Error {
    const numTransactions = this.transactions.length + 1;
    if (numTransactions > this.transactionLimit) {
      return new Error(`${numTransactions} exceeds transaction limit of ${this.transactionLimit}`);
    }
    ... // build and sign the tip transaction
    this.transactions.push(tipTx);
    return this;
  }
  \<close>
  The limit counts the tip transaction. The numbers in the message of the error are left
  out, and so is the key pair that signs the tip transaction.
\<close>

datatype 'tx bundled = UserTx 'tx | TipTx string int string

record 'tx jito_bundle =
  transactions :: "'tx bundled list"
  transactionLimit :: nat

definition addTransactions :: "'tx jito_bundle \<Rightarrow> 'tx list \<Rightarrow> thrown + 'tx jito_bundle" where
  "addTransactions bund txs =
     (let numTransactions = length (transactions bund) + length txs
      in if numTransactions > transactionLimit bund
         then Inl (Error ''exceeds transaction limit'')
         else Inr (bund\<lparr>transactions := transactions bund @ map UserTx txs\<rparr>))"

definition addTipTx ::
  "'tx jito_bundle \<Rightarrow> int \<Rightarrow> string \<Rightarrow> string \<Rightarrow> thrown + 'tx jito_bundle" where
  "addTipTx bund tipLamports tipAccount recentBlockhash =
     (let numTransactions = length (transactions bund) + 1
      in if numTransactions > transactionLimit bund
         then Inl (Error ''exceeds transaction limit'')
         else Inr (bund\<lparr>transactions :=
                          transactions bund @ [TipTx tipAccount tipLamports recentBlockhash]\<rparr>))"

text \<open>
  What the block engine and the node do during one submission: the answer of
  \<open>getTipAccounts\<close>, the draw of \<open>Math.random\<close>, the fee of the environment
  (\<open>JITO_FEE\<close>), the answer of \<open>connection.getLatestBlockhash("processed")\<close>, the
  answer of \<open>sendBundle\<close> (the identifier the relay gives the bundle, or an error), and
  the result stream around the 30-second timer.
\<close>

record 'tx session =
  getTipAccounts :: "thrown + string list"
  random :: real
  JITO_FEE :: int
  getLatestBlockhash_processed :: "thrown + string"
  sendBundle :: "'tx jito_bundle \<Rightarrow> thrown + string"
  results_before :: "stream_item list"
  results_after :: "stream_item list"

text \<open>
  \<^verbatim>\<open>
  async function build_bundle(search, bundleTransactionLimit, txs, keypair) {
    try {
      const accounts = await search.getTipAccounts();
      const _tipAccount = accounts[Math.min(Math.floor(Math.random() * accounts.length), 3)];
      const tipAccount = new PublicKey(_tipAccount);
      const bund = new Bundle([], bundleTransactionLimit);
      const resp = await connection.getLatestBlockhash("processed");
      bund.addTransactions(...txs);
      const maybeBundle = bund.addTipTx(keypair, JITO_FEE, tipAccount, resp.blockhash);
      if (isError(maybeBundle)) {
        throw maybeBundle;
      }
      await search.sendBundle(maybeBundle);
      return maybeBundle;
    } catch (error) {
      throw error;
    }
  }
  \<close>
  The result of \<open>addTransactions\<close> is not looked at: when it is an error the bundle is
  left as it was. \<open>assemble_bundle\<close> is the function up to the call of
  \<open>sendBundle\<close>: that call is made exactly when it gives a bundle, and with that bundle.
\<close>

definition assemble_bundle :: "'tx session \<Rightarrow> nat \<Rightarrow> 'tx list \<Rightarrow> thrown + 'tx jito_bundle" where
  "assemble_bundle search bundleTransactionLimit txs =
     (case getTipAccounts search of
        Inl e \<Rightarrow> Inl e
      | Inr accounts \<Rightarrow>
          (case tip_account accounts (random search) of
             None \<Rightarrow> Inl (Error ''Invalid public key input'')
           | Some tipAccount \<Rightarrow>
               (let bund = \<lparr>transactions = [], transactionLimit = bundleTransactionLimit\<rparr>
                in case getLatestBlockhash_processed search of
                     Inl e \<Rightarrow> Inl e
                   | Inr blockhash \<Rightarrow>
                       (let bund' = (case addTransactions bund txs of
                                       Inl e \<Rightarrow> bund
                                     | Inr added \<Rightarrow> added)
                        in addTipTx bund' (JITO_FEE search) tipAccount blockhash))))"

definition build_bundle :: "'tx session \<Rightarrow> nat \<Rightarrow> 'tx list \<Rightarrow> thrown + 'tx jito_bundle" where
  "build_bundle search bundleTransactionLimit txs =
     (case assemble_bundle search bundleTransactionLimit txs of
        Inl e \<Rightarrow> Inl e
      | Inr maybeBundle \<Rightarrow>
          (case sendBundle search maybeBundle of
             Inl e \<Rightarrow> Inl e
           | Inr uuid \<Rightarrow> Inr maybeBundle))"

text \<open>
  \<^verbatim>\<open>
  export async function bull_dozer(txs, keypair) {
    try {
      const bundleTransactionLimit = 5;
      ...
      const maybeBundle = await build_bundle(search, bundleTransactionLimit, txs, keypair);
      if (maybeBundle) { ... } else { return false; }
      const bundleResult = await onBundleResult(search);
      if (bundleResult > 0) {
        return true;
      } else {
        console.error(`Bundle rejected by Jito with result code: ${bundleResult}`);
        return false;
      }
    } catch (error) {
      return false;
    }
  }
  \<close>
  \<open>None\<close> stands for a promise that is never settled.
\<close>

definition bull_dozer :: "'tx session \<Rightarrow> 'tx list \<Rightarrow> bool option" where
  "bull_dozer search txs =
     (case build_bundle search 5 txs of
        Inl error \<Rightarrow> Some False
      | Inr maybeBundle \<Rightarrow>
          (case onBundleResult (results_before search) (results_after search) of
             None \<Rightarrow> None
           | Some bundleResult \<Rightarrow> Some (0 < bundleResult)))"

subsection \<open>Splitting into bundles of five\<close>

text \<open>
  \<^verbatim>\<open>
  export async function bundle(txs: VersionedTransaction[], keypair: Keypair) {
    try {
      const txNum = Math.ceil(txs.length / 5);
      let successNum = 0;
      for (let i = 0; i < txNum; i++) {
        const upperIndex = (i + 1) * 5;
        const downIndex = i * 5;
        const newTxs: VersionedTransaction[] = [];
        for (let j = downIndex; j < upperIndex; j++) {
          if (txs[j]) newTxs.push(txs[j]);
        }
        const success = await bull_dozer(newTxs, keypair);
        if (success) { successNum++; } else { ... }
      }
      return successNum === txNum;
    } catch (error) {
      return false;
    }
  }
  \<close>
  \<open>relay i\<close> is what the relay does during submission number \<open>i\<close>. A transaction
  object is truthy, so \<open>txs[j]\<close> is falsy exactly past the end of the array. The loop
  threads the list of the bundles handed to \<open>bull_dozer\<close> and returns it with the
  result. The function is named \<open>bundle_txs\<close> here (\<open>bundle\<close> is a keyword).
\<close>

function bundle_loop ::
  "(nat \<Rightarrow> 'tx session) \<Rightarrow> 'tx list \<Rightarrow> nat \<Rightarrow> nat \<Rightarrow> nat \<Rightarrow> 'tx list list
     \<Rightarrow> (nat \<times> 'tx list list) option" where
  "bundle_loop relay txs txNum i successNum submitted =
     (if i < txNum then
        (let upperIndex = (i + 1) * 5;
             downIndex = i * 5;
             newTxs = [txs ! j. j \<leftarrow> [downIndex..<upperIndex], j < length txs]
         in case bull_dozer (relay i) newTxs of
              None \<Rightarrow> None
            | Some success \<Rightarrow>
                bundle_loop relay txs txNum (i + 1)
                  (if success then successNum + 1 else successNum) (submitted @ [newTxs]))
      else Some (successNum, submitted))"
  by pat_completeness auto
termination
  by (relation "measure (\<lambda>(relay, txs, txNum, i, successNum, submitted). txNum - i)") auto

declare bundle_loop.simps [simp del]

definition bundle_txs ::
  "(nat \<Rightarrow> 'tx session) \<Rightarrow> 'tx list \<Rightarrow> (bool \<times> 'tx list list) option" where
  "bundle_txs relay txs =
     (let txNum = nat \<lceil>real (length txs) / 5\<rceil>
      in case bundle_loop relay txs txNum 0 0 [] of
           None \<Rightarrow> None
         | Some (successNum, submitted) \<Rightarrow> Some (successNum = txNum, submitted))"

text \<open>
  Data for concrete runs: a relay that answers every request, gives each bundle the
  identifier \<open>bundle-1\<close>, and delivers the given results before the timer fires.
\<close>

definition answering_relay :: "stream_item list \<Rightarrow> 'tx session" where
  "answering_relay results =
     \<lparr>getTipAccounts = Inr tipAccounts, random = 0, JITO_FEE = 1000,
      getLatestBlockhash_processed = Inr ''blockhash'',
      sendBundle = (\<lambda>b. Inr ''bundle-1''),
      results_before = results, results_after = []\<rparr>"

text \<open>The bundle that \<open>bundle_txs\<close> builds in round \<open>i\<close>.\<close>

definition newTxs_of :: "'tx list \<Rightarrow> nat \<Rightarrow> 'tx list" where
  "newTxs_of txs i = [txs ! j. j \<leftarrow> [i * 5..<(i + 1) * 5], j < length txs]"

section \<open>Packing and sending: the many-to-one sweep and the bundled sell\<close>

subsection \<open>Transactions and the network\<close>

record 'k keypair =
  publicKey :: 'k
  secretKey :: string

text \<open>The instruction of \<open>SystemProgram.transfer\<close>.\<close>

record 'k transfer =
  fromPubkey :: 'k
  toPubkey :: 'k
  lamports :: int

text \<open>
  A signed versioned transaction: the message compiled from the payer, the instructions,
  the recent blockhash and the lookup tables, and the key pairs it was signed with.
\<close>

record ('k, 'ix, 'h, 'alt) versioned_tx =
  payerKey :: 'k
  instructions :: "'ix list"
  recentBlockhash :: 'h
  addressLookupTables :: "'alt list"
  signed_by :: "'k keypair list"

text \<open>
  The ledger client and its library: the answer to the blockhash request of round \<open>i\<close>
  of a loop (the blockhash, or the request fails); compiling the message and signing it
  (\<open>compileToV0Message\<close>, \<open>new VersionedTransaction\<close> and \<open>sign\<close>), which throw for
  instance when the message does not fit the packet buffer of 1232 bytes; the length of
  the serialization of the signed transaction, which may throw as well; and
  \<open>sendTransaction\<close>, which gives a signature or throws. These are primitives of the
  client library and parameters here.
\<close>

record ('k, 'ix, 'h, 'alt) connection =
  getLatestBlockhash :: "nat \<Rightarrow> thrown + 'h"
  sign :: "('k, 'ix, 'h, 'alt) versioned_tx \<Rightarrow> thrown option"
  serialize_length :: "('k, 'ix, 'h, 'alt) versioned_tx \<Rightarrow> thrown + nat"
  sendTransaction :: "('k, 'ix, 'h, 'alt) versioned_tx \<Rightarrow> thrown + string"

text \<open>
  What happened to one batch: it had no instruction, or its transaction was too large
  and was skipped, or the transaction was handed to \<open>sendTransaction\<close>, which gave a
  signature or threw.
\<close>

datatype 'tx batch_outcome = NoInstructions | Skipped 'tx | Sent 'tx string | SendFailed 'tx

fun sent_tx :: "'tx batch_outcome \<Rightarrow> 'tx option" where
  "sent_tx NoInstructions = None"
| "sent_tx (Skipped tx) = None"
| "sent_tx (Sent tx signature) = Some tx"
| "sent_tx (SendFailed tx) = Some tx"

subsection \<open>The sweep: preparing the transfers\<close>

definition MAX_WALLETS_PER_TRANSACTION :: nat where
  "MAX_WALLETS_PER_TRANSACTION = 6"

definition RENT_EXEMPT_MINIMUM :: int where
  "RENT_EXEMPT_MINIMUM = 2039280"

definition TRANSACTION_FEE :: int where
  "TRANSACTION_FEE = 5000"

definition SEND_FIXED_AMOUNT :: "int option" where
  "SEND_FIXED_AMOUNT = None"

text \<open>
  \<^verbatim>\<open>
  const transferInstructions: TransactionInstruction[] = [];
  const signers: Keypair[] = [];
  for (const wallet of wallets) {
    try {
      const balance = await connection.getBalance(wallet.publicKey);
      if (balance <= RENT_EXEMPT_MINIMUM + TRANSACTION_FEE) { continue; }
      let transferAmount: number;
      if (SEND_FIXED_AMOUNT && balance >= SEND_FIXED_AMOUNT + RENT_EXEMPT_MINIMUM + TRANSACTION_FEE) {
        transferAmount = SEND_FIXED_AMOUNT;
      } else {
        transferAmount = balance - RENT_EXEMPT_MINIMUM - TRANSACTION_FEE;
      }
      const transferInstruction = SystemProgram.transfer({
        fromPubkey: wallet.publicKey, toPubkey: destinationWallet.publicKey,
        lamports: transferAmount });
      transferInstructions.push(transferInstruction);
      signers.push(wallet);
    } catch (error) { console.error(...); }
  }
  \<close>
  \<open>getBalance n k\<close> is the answer to the balance request number \<open>n\<close>, for the key
  \<open>k\<close>; it may throw. Balances are numbers of lamports. The code holds them in double
  precision, where the comparison and the subtraction are exact for balances below 2^53;
  here they are integers. No property below depends on the amount.
\<close>

definition transfer_amount :: "int \<Rightarrow> int" where
  "transfer_amount balance =
     (case SEND_FIXED_AMOUNT of
        None \<Rightarrow> balance - RENT_EXEMPT_MINIMUM - TRANSACTION_FEE
      | Some fixed \<Rightarrow>
          if fixed \<noteq> 0 \<and> balance \<ge> fixed + RENT_EXEMPT_MINIMUM + TRANSACTION_FEE
          then fixed
          else balance - RENT_EXEMPT_MINIMUM - TRANSACTION_FEE)"

fun prepare_transfers ::
  "(nat \<Rightarrow> 'k \<Rightarrow> thrown + int) \<Rightarrow> 'k \<Rightarrow> nat \<Rightarrow> 'k keypair list
     \<Rightarrow> 'k transfer list \<times> 'k keypair list \<Rightarrow> 'k transfer list \<times> 'k keypair list" where
  "prepare_transfers getBalance destination n [] (transferInstructions, signers) =
     (transferInstructions, signers)"
| "prepare_transfers getBalance destination n (wallet # wallets) (transferInstructions, signers) =
     (case getBalance n (publicKey wallet) of
        Inl error \<Rightarrow>
          prepare_transfers getBalance destination (Suc n) wallets (transferInstructions, signers)
      | Inr balance \<Rightarrow>
          if balance \<le> RENT_EXEMPT_MINIMUM + TRANSACTION_FEE
          then prepare_transfers getBalance destination (Suc n) wallets
                 (transferInstructions, signers)
          else prepare_transfers getBalance destination (Suc n) wallets
                 (transferInstructions
                    @ [\<lparr>fromPubkey = publicKey wallet, toPubkey = destination,
                         lamports = transfer_amount balance\<rparr>],
                  signers @ [wallet]))"

subsection \<open>The sweep: sending the batches\<close>

text \<open>
  \<^verbatim>\<open>
  const instructionBatches = batchArray(transferInstructions, MAX_WALLETS_PER_TRANSACTION);
  const signerBatches = batchArray(signers, MAX_WALLETS_PER_TRANSACTION);
  for (let i = 0; i < instructionBatches.length; i++) {
    const batchInstructions = instructionBatches[i];
    const batchSigners = signerBatches[i];
    const { blockhash: batchBlockhash, ... } = await connection.getLatestBlockhash('finalized');
    const batchMessage = new TransactionMessage({
      payerKey: payerWallet.publicKey,
      instructions: batchInstructions,
      recentBlockhash: batchBlockhash,
    }).compileToV0Message([lookupTableAccount]);
    const batchTransaction = new VersionedTransaction(batchMessage);
    batchTransaction.sign([payerWallet, ...batchSigners]);
    const transactionSize = batchTransaction.serialize().length;
    if (transactionSize > 1232) {
      console.error('Transaction size exceeds the maximum allowed limit. Skipping this batch.');
      continue;
    }
    try {
      const batchSignature = await connection.sendTransaction(batchTransaction, ...);
    } catch (error) {
      await simulateAndGetLogs(connection, batchTransaction);
    }
  }
  \<close>
  The transaction built for a batch, given the blockhash that was fetched:
\<close>

definition batchTransaction ::
  "'k keypair \<Rightarrow> 'alt \<Rightarrow> 'ix list \<Rightarrow> 'k keypair list \<Rightarrow> 'h \<Rightarrow> ('k, 'ix, 'h, 'alt) versioned_tx"
  where
  "batchTransaction payerWallet lookupTableAccount batchInstructions batchSigners batchBlockhash =
     \<lparr>payerKey = publicKey payerWallet,
      instructions = batchInstructions,
      recentBlockhash = batchBlockhash,
      addressLookupTables = [lookupTableAccount],
      signed_by = payerWallet # batchSigners\<rparr>"

text \<open>
  What either loop does with a transaction once it is built. Nothing before the
  \<open>try\<close> is guarded: an error of \<open>sign\<close> or of \<open>serialize\<close> leaves the loop and
  ends the script (\<open>Inl\<close>). Otherwise the transaction is skipped when its size exceeds
  the limit, and handed to \<open>sendTransaction\<close> when it does not; an error of
  \<open>sendTransaction\<close> is caught.
\<close>

definition check_and_send ::
  "('k, 'ix, 'h, 'alt) connection \<Rightarrow> nat \<Rightarrow> ('k, 'ix, 'h, 'alt) versioned_tx
     \<Rightarrow> thrown + ('k, 'ix, 'h, 'alt) versioned_tx batch_outcome" where
  "check_and_send connection limit tx =
     (case sign connection tx of
        Some e \<Rightarrow> Inl e
      | None \<Rightarrow>
          (case serialize_length connection tx of
             Inl e \<Rightarrow> Inl e
           | Inr transactionSize \<Rightarrow>
               if transactionSize > limit then Inr (Skipped tx)
               else (case sendTransaction connection tx of
                       Inr signature \<Rightarrow> Inr (Sent tx signature)
                     | Inl error \<Rightarrow> Inr (SendFailed tx))))"

text \<open>
  The body of the loop for batch \<open>i\<close>: what happened to the batch, or the error that
  ends the script. Spreading \<open>signerBatches[i]\<close> when it is \<open>undefined\<close> throws; in the
  script the two lists of batches have the same length, so that this does not happen
  there.
\<close>

definition sweep_batch ::
  "('k, 'ix, 'h, 'alt) connection \<Rightarrow> 'k keypair \<Rightarrow> 'alt \<Rightarrow> 'ix list list
     \<Rightarrow> 'k keypair list list \<Rightarrow> nat
     \<Rightarrow> thrown + ('k, 'ix, 'h, 'alt) versioned_tx batch_outcome" where
  "sweep_batch connection payerWallet lookupTableAccount instructionBatches signerBatches i =
     (case getLatestBlockhash connection i of
        Inl e \<Rightarrow> Inl e
      | Inr batchBlockhash \<Rightarrow>
          if i < length signerBatches
          then check_and_send connection 1232
                 (batchTransaction payerWallet lookupTableAccount (instructionBatches ! i)
                    (signerBatches ! i) batchBlockhash)
          else Inl (Error ''batchSigners is not iterable''))"

text \<open>
  The loop returns what happened to each batch it has dealt with, in order, and the error
  that ended it early, if any.
\<close>

function send_batches ::
  "('k, 'ix, 'h, 'alt) connection \<Rightarrow> 'k keypair \<Rightarrow> 'alt \<Rightarrow> 'ix list list
     \<Rightarrow> 'k keypair list list \<Rightarrow> nat \<Rightarrow> ('k, 'ix, 'h, 'alt) versioned_tx batch_outcome list
     \<Rightarrow> ('k, 'ix, 'h, 'alt) versioned_tx batch_outcome list \<times> thrown option" where
  "send_batches connection payerWallet lookupTableAccount instructionBatches signerBatches i
     outcomes =
     (if i < length instructionBatches then
        (case sweep_batch connection payerWallet lookupTableAccount instructionBatches
                signerBatches i of
           Inl e \<Rightarrow> (outcomes, Some e)
         | Inr outcome \<Rightarrow>
             send_batches connection payerWallet lookupTableAccount instructionBatches
               signerBatches (i + 1) (outcomes @ [outcome]))
      else (outcomes, None))"
  by pat_completeness auto
termination
  by (relation
        "measure (\<lambda>(connection, payerWallet, lookupTableAccount, instructionBatches,
                    signerBatches, i, outcomes). length instructionBatches - i)") auto

declare send_batches.simps [simp del]

text \<open>
  The script from the preparation of the transfers on. It ends early when there is no
  transfer. \<open>None\<close> stands for a run that does not end.
\<close>

definition sweep ::
  "('k, 'k transfer, 'h, 'alt) connection \<Rightarrow> (nat \<Rightarrow> 'k \<Rightarrow> thrown + int) \<Rightarrow> 'k keypair \<Rightarrow> 'k
     \<Rightarrow> 'alt \<Rightarrow> 'k keypair list
     \<Rightarrow> (('k, 'k transfer, 'h, 'alt) versioned_tx batch_outcome list \<times> thrown option) option"
  where
  "sweep connection getBalance payerWallet destination lookupTableAccount wallets =
     (case prepare_transfers getBalance destination 0 wallets ([], []) of
        (transferInstructions, signers) \<Rightarrow>
          if length transferInstructions = 0 then Some ([], None)
          else
            (case batchArray transferInstructions MAX_WALLETS_PER_TRANSACTION of
               None \<Rightarrow> None
             | Some instructionBatches \<Rightarrow>
                 (case batchArray signers MAX_WALLETS_PER_TRANSACTION of
                    None \<Rightarrow> None
                  | Some signerBatches \<Rightarrow>
                      Some (send_batches connection payerWallet lookupTableAccount
                              instructionBatches signerBatches 0 []))))"

subsection \<open>The bundled sell\<close>

definition MAX_WALLETS_PER_TX :: nat where
  "MAX_WALLETS_PER_TX = 4"

text \<open>
  What the token side answers: the balance of a wallet (a number or \<open>null\<close>, or the
  request fails), the conversion \<open>BigInt(balance * Math.pow(10, 6))\<close> (the product is
  computed in double precision and \<open>BigInt\<close> throws a \<open>RangeError\<close> unless it is an
  integer), and the sell instructions that the SDK builds (or its error).
\<close>

record ('k, 'ix) token_side =
  getSPLBalance :: "'k \<Rightarrow> thrown + real option"
  token_units :: "real \<Rightarrow> thrown + int"
  getSellInstructionsByTokenAmount :: "'k \<Rightarrow> int \<Rightarrow> thrown + 'ix list"

text \<open>
  \<^verbatim>\<open>
  const instructions: TransactionInstruction[] = [];
  const validSigners: Keypair[] = [];
  for (const wallet of batch) {
    const balance = await getSPLBalance(connection, splTokenMint, wallet.publicKey);
    if (!balance || balance === 0) { continue; }
    validSigners.push(wallet);
    const sellInstructions = await sdk.getSellInstructionsByTokenAmount(
      wallet.publicKey, splTokenMint, BigInt(balance * Math.pow(10, 6)), SLIPPAGE_BASIS_POINTS);
    instructions.push(...sellInstructions.instructions);
  }
  \<close>
  None of these calls is inside a \<open>try\<close>: an error of any of them ends the script.
\<close>

fun collect_sells ::
  "('k, 'ix) token_side \<Rightarrow> 'k keypair list \<Rightarrow> 'ix list \<times> 'k keypair list
     \<Rightarrow> thrown + 'ix list \<times> 'k keypair list" where
  "collect_sells sdk [] (ixs, validSigners) = Inr (ixs, validSigners)"
| "collect_sells sdk (wallet # batch) (ixs, validSigners) =
     (case getSPLBalance sdk (publicKey wallet) of
        Inl e \<Rightarrow> Inl e
      | Inr None \<Rightarrow> collect_sells sdk batch (ixs, validSigners)
      | Inr (Some balance) \<Rightarrow>
          if balance = 0 then collect_sells sdk batch (ixs, validSigners)
          else
            (case token_units sdk balance of
               Inl e \<Rightarrow> Inl e
             | Inr amount \<Rightarrow>
                 (case getSellInstructionsByTokenAmount sdk (publicKey wallet) amount of
                    Inl e \<Rightarrow> Inl e
                  | Inr sellInstructions \<Rightarrow>
                      collect_sells sdk batch
                        (ixs @ sellInstructions, validSigners @ [wallet]))))"

text \<open>
  \<^verbatim>\<open>
  for (const batch of walletBatches) {
    ... // the loop above
    if (instructions.length === 0) { continue; }
    const blockhash = (await connection.getLatestBlockhash("confirmed")).blockhash;
    const transactionMessage = new TransactionMessage({
      payerKey: altAuthority.publicKey, instructions, recentBlockhash: blockhash,
    }).compileToV0Message([lookupTableAccount]);
    const transaction = new VersionedTransaction(transactionMessage);
    transaction.sign([altAuthority, ...validSigners]);
    const size = transaction.serialize().length;
    if (size > 1200) {
      console.error(`Transaction size exceeds the limit (${size} bytes). Skipping batch.`);
      continue;
    }
    try {
      const txSignature = await connection.sendTransaction(transaction, { skipPreflight: false });
      await retryAsync(... confirmTransaction ...);
    } catch (error) { console.error(...); }
  }
  \<close>
\<close>

definition sellTransaction ::
  "'k keypair \<Rightarrow> 'alt \<Rightarrow> 'ix list \<Rightarrow> 'k keypair list \<Rightarrow> 'h \<Rightarrow> ('k, 'ix, 'h, 'alt) versioned_tx"
  where
  "sellTransaction altAuthority lookupTableAccount ixs validSigners blockhash =
     \<lparr>payerKey = publicKey altAuthority,
      instructions = ixs,
      recentBlockhash = blockhash,
      addressLookupTables = [lookupTableAccount],
      signed_by = altAuthority # validSigners\<rparr>"

text \<open>
  The body of the loop for the batch of round \<open>n\<close>: what happened to the batch, or the
  error that ends the script.
\<close>

definition sell_batch ::
  "('k, 'ix, 'h, 'alt) connection \<Rightarrow> ('k, 'ix) token_side \<Rightarrow> 'k keypair \<Rightarrow> 'alt \<Rightarrow> nat
     \<Rightarrow> 'k keypair list \<Rightarrow> thrown + ('k, 'ix, 'h, 'alt) versioned_tx batch_outcome" where
  "sell_batch connection sdk altAuthority lookupTableAccount n batch =
     (case collect_sells sdk batch ([], []) of
        Inl e \<Rightarrow> Inl e
      | Inr (ixs, validSigners) \<Rightarrow>
          if length ixs = 0 then Inr NoInstructions
          else
            (case getLatestBlockhash connection n of
               Inl e \<Rightarrow> Inl e
             | Inr blockhash \<Rightarrow>
                 check_and_send connection 1200
                   (sellTransaction altAuthority lookupTableAccount ixs validSigners blockhash)))"

fun sell_batches ::
  "('k, 'ix, 'h, 'alt) connection \<Rightarrow> ('k, 'ix) token_side \<Rightarrow> 'k keypair \<Rightarrow> 'alt \<Rightarrow> nat
     \<Rightarrow> 'k keypair list list \<Rightarrow> ('k, 'ix, 'h, 'alt) versioned_tx batch_outcome list
     \<Rightarrow> ('k, 'ix, 'h, 'alt) versioned_tx batch_outcome list \<times> thrown option" where
  "sell_batches connection sdk altAuthority lookupTableAccount n [] outcomes = (outcomes, None)"
| "sell_batches connection sdk altAuthority lookupTableAccount n (batch # walletBatches) outcomes =
     (case sell_batch connection sdk altAuthority lookupTableAccount n batch of
        Inl e \<Rightarrow> (outcomes, Some e)
      | Inr outcome \<Rightarrow>
          sell_batches connection sdk altAuthority lookupTableAccount (Suc n) walletBatches
            (outcomes @ [outcome]))"

definition sell ::
  "('k, 'ix, 'h, 'alt) connection \<Rightarrow> ('k, 'ix) token_side \<Rightarrow> 'k keypair \<Rightarrow> 'alt
     \<Rightarrow> 'k keypair list
     \<Rightarrow> (('k, 'ix, 'h, 'alt) versioned_tx batch_outcome list \<times> thrown option) option" where
  "sell connection sdk altAuthority lookupTableAccount sellerWallets =
     (case batchArray sellerWallets MAX_WALLETS_PER_TX of
        None \<Rightarrow> None
      | Some walletBatches \<Rightarrow>
          Some (sell_batches connection sdk altAuthority lookupTableAccount 0 walletBatches []))"

text \<open>The transaction an outcome is about.\<close>

fun batch_tx :: "'tx batch_outcome \<Rightarrow> 'tx option" where
  "batch_tx NoInstructions = None"
| "batch_tx (Skipped tx) = Some tx"
| "batch_tx (Sent tx signature) = Some tx"
| "batch_tx (SendFailed tx) = Some tx"

text \<open>
  An outcome is right for a transaction and a limit: the transaction was signed and
  serialized, and it was skipped if its size exceeds the limit and handed to
  \<open>sendTransaction\<close> if not.
\<close>

definition outcome_ok ::
  "('k, 'ix, 'h, 'alt) connection \<Rightarrow> nat \<Rightarrow> ('k, 'ix, 'h, 'alt) versioned_tx
     \<Rightarrow> ('k, 'ix, 'h, 'alt) versioned_tx batch_outcome \<Rightarrow> bool" where
  "outcome_ok connection limit tx out =
     (batch_tx out = Some tx
      \<and> sign connection tx = None
      \<and> (case serialize_length connection tx of
            Inl e \<Rightarrow> False
          | Inr transactionSize \<Rightarrow>
              if transactionSize > limit then out = Skipped tx else sent_tx out = Some tx))"

text \<open>
  Data for concrete runs: seven funded wallets, and a client that answers every request,
  signs every transaction (each message fits the buffer), whose signed transactions take
  250 bytes per instruction, and that accepts every transaction it is sent.
\<close>

definition seven_wallets :: "nat keypair list" where
  "seven_wallets =
     [\<lparr>publicKey = 1, secretKey = ''k1''\<rparr>, \<lparr>publicKey = 2, secretKey = ''k2''\<rparr>,
      \<lparr>publicKey = 3, secretKey = ''k3''\<rparr>, \<lparr>publicKey = 4, secretKey = ''k4''\<rparr>,
      \<lparr>publicKey = 5, secretKey = ''k5''\<rparr>, \<lparr>publicKey = 6, secretKey = ''k6''\<rparr>,
      \<lparr>publicKey = 7, secretKey = ''k7''\<rparr>]"

definition test_connection :: "(nat, 'ix, string, string) connection" where
  "test_connection =
     \<lparr>getLatestBlockhash = (\<lambda>i. Inr ''hash''),
      sign = (\<lambda>tx. None),
      serialize_length = (\<lambda>tx. Inr (250 * length (instructions tx))),
      sendTransaction = (\<lambda>tx. Inr ''signature'')\<rparr>"

chapter \<open>Properties\<close>

section \<open>Chunking an array: \<open>batchArray\<close>: properties\<close>

lemma chunks_Nil [simp]: "chunks n [] = []"
  by (simp add: chunks.simps)

lemma chunks_step: "0 < n \<Longrightarrow> xs \<noteq> [] \<Longrightarrow> chunks n xs = take n xs # chunks n (drop n xs)"
  by (subst chunks.simps) simp

lemma batchArray_loop_chunks:
  "0 < n \<Longrightarrow> batchArray_loop xs n i bs = Some (bs @ chunks n (drop i xs))"
proof (induction "length xs - i" arbitrary: i bs rule: less_induct)
  case less
  show ?case
  proof (cases "i < length xs")
    case False
    then show ?thesis
      by (subst batchArray_loop.simps) simp
  next
    case True
    have smaller: "length xs - (i + n) < length xs - i"
      using True less.prems by arith
    have nonempty: "drop i xs \<noteq> []"
      using True by simp
    have "batchArray_loop xs n i bs =
            batchArray_loop xs n (i + n) (bs @ [array_slice xs i (i + n)])"
      using True by (subst batchArray_loop.simps) simp
    also have "\<dots> = Some ((bs @ [array_slice xs i (i + n)]) @ chunks n (drop (i + n) xs))"
      by (rule less.hyps [OF smaller less.prems])
    also have "\<dots> = Some (bs @ chunks n (drop i xs))"
      using chunks_step [OF less.prems nonempty]
      by (simp add: array_slice_def add.commute)
    finally show ?thesis .
  qed
qed

lemma batchArray_chunks: "0 < n \<Longrightarrow> batchArray xs n = Some (chunks n xs)"
  by (simp add: batchArray_def batchArray_loop_chunks)

text \<open>With a batch size of 0 the loop does not end on a non-empty array.\<close>

lemma batchArray_loop_returns:
  assumes "batchArray_loop array batchSize i batches = Some y"
  shows "\<not> (batchSize = 0 \<and> i < length array)"
proof (rule batchArray_loop.raw_induct
    [where P = "\<lambda>array batchSize i batches y. \<not> (batchSize = 0 \<and> i < length array)",
     OF _ assms])
  fix loop :: "'a list \<Rightarrow> nat \<Rightarrow> nat \<Rightarrow> 'a list list \<Rightarrow> 'a list list option"
    and array batchSize i batches y
  assume IH: "\<And>a b c d y'. loop a b c d = Some y' \<Longrightarrow> \<not> (b = 0 \<and> c < length a)"
    and body: "(if i < length array
                then loop array batchSize (i + batchSize)
                       (batches @ [array_slice array i (i + batchSize)])
                else Some batches) = Some y"
  show "\<not> (batchSize = 0 \<and> i < length array)"
  proof
    assume a: "batchSize = 0 \<and> i < length array"
    with body have "loop array batchSize (i + batchSize)
        (batches @ [array_slice array i (i + batchSize)]) = Some y"
      by simp
    from IH [OF this] a show False by simp
  qed
qed

lemma batchArray_zero_diverges: "array \<noteq> [] \<Longrightarrow> batchArray array 0 = None"
proof (rule ccontr)
  assume ne: "array \<noteq> []" and "batchArray array 0 \<noteq> None"
  then obtain y where "batchArray_loop array 0 0 [] = Some y"
    by (auto simp: batchArray_def)
  from batchArray_loop_returns [OF this] ne show False by simp
qed

lemma concat_chunks: "0 < n \<Longrightarrow> concat (chunks n xs) = xs"
proof (induction n xs rule: chunks.induct)
  case (1 n xs)
  show ?case
  proof (cases "xs = []")
    case True
    then show ?thesis by simp
  next
    case False
    with 1 show ?thesis
      by (simp add: chunks_step)
  qed
qed

lemma map_length_chunks:
  "0 < n \<Longrightarrow> map length (chunks n xs) =
     replicate (length xs div n) n @ (if length xs mod n = 0 then [] else [length xs mod n])"
proof (induction n xs rule: chunks.induct)
  case (1 n xs)
  show ?case
  proof (cases "xs = []")
    case True
    then show ?thesis by simp
  next
    case False
    note ne = this
    show ?thesis
    proof (cases "n \<le> length xs")
      case True
      then have d: "length xs div n = Suc ((length xs - n) div n)"
        using "1.prems" by (simp add: le_div_geq)
      have m: "length xs mod n = (length xs - n) mod n"
        using True by (simp add: le_mod_geq)
      from 1 ne True show ?thesis
        by (simp add: chunks_step d m min_def)
    next
      case False
      then have lt: "length xs < n" by simp
      then have "drop n xs = []" by simp
      with ne lt "1.prems" show ?thesis
        by (simp add: chunks_step)
    qed
  qed
qed

text \<open>
  Claim C3. For every input list and every positive chunk bound, \<open>batchArray\<close> returns;
  its chunks, concatenated in order, are the input list; every chunk has exactly
  \<open>batchSize\<close> elements except possibly a shorter, non-empty last one; and 12 operations
  with a bound of 5 give exactly three batches, of sizes 5, 5 and 2.
\<close>

theorem batchArray_partition:
  "0 < batchSize \<Longrightarrow>
     (\<exists>batches. batchArray array batchSize = Some batches
        \<and> concat batches = array
        \<and> map length batches =
            replicate (length array div batchSize) batchSize
            @ (if length array mod batchSize = 0 then [] else [length array mod batchSize]))
     \<and> (length array = 12 \<longrightarrow>
          (\<exists>batches. batchArray array 5 = Some batches \<and> map length batches = [5, 5, 2]))"
proof (intro conjI impI)
  assume pos: "0 < batchSize"
  show "\<exists>batches. batchArray array batchSize = Some batches
        \<and> concat batches = array
        \<and> map length batches =
            replicate (length array div batchSize) batchSize
            @ (if length array mod batchSize = 0 then [] else [length array mod batchSize])"
    using pos by (simp add: batchArray_chunks concat_chunks map_length_chunks)
next
  assume len: "length array = 12"
  have "map length (chunks 5 array) = replicate (12 div 5) 5 @ [12 mod 5]"
    using len map_length_chunks [of 5 array] by simp
  also have "\<dots> = [5, 5, 2]"
    by (simp add: numeral_2_eq_2)
  finally show "\<exists>batches. batchArray array 5 = Some batches \<and> map length batches = [5, 5, 2]"
    by (simp add: batchArray_chunks)
qed

theorem batchArray_partition_witness:
  "(0::nat) < 5
   \<and> batchArray [1, 2, 3, 4, 5, 6, 7, 8, 9, 10, 11, 12 :: nat] 5
       = Some [[1, 2, 3, 4, 5], [6, 7, 8, 9, 10], [11, 12]]"
proof -
  let ?ops = "[1, 2, 3, 4, 5, 6, 7, 8, 9, 10, 11, 12 :: nat]"
  have pos: "(0::nat) < 5" by simp
  from batchArray_partition [OF pos, of ?ops]
  obtain batches where b: "batchArray ?ops 5 = Some batches" and c: "concat batches = ?ops"
    and l: "map length batches = [5, 5, 2]"
    by auto
  from l obtain b1 b2 b3 where bs: "batches = [b1, b2, b3]"
    and l1: "length b1 = 5" and l2: "length b2 = 5" and l3: "length b3 = 2"
    by (auto simp: map_eq_Cons_conv)
  from c bs l1 l2 have "b1 = take 5 ?ops" "b2 = take 5 (drop 5 ?ops)" "b3 = drop 10 ?ops"
    by (auto simp: append_eq_conv_conj)
  with b bs pos show ?thesis by simp
qed

section \<open>Bounded retry: \<open>retryTransaction\<close> and \<open>retryAsync\<close>: properties\<close>

lemma str_includes_sublist: "str_includes s t = sublist t s"
  by (induction s) (simp_all add: sublist_Cons_right)

lemma recoverable_iff:
  "recoverable e \<longleftrightarrow> (\<exists>p q. e = Error (p @ ''not a recent slot'' @ q))"
  by (cases e) (auto simp: str_includes_sublist sublist_def)

lemma retryTransaction_loop_first:
  "k < retries \<Longrightarrow> calls \<le> k \<Longrightarrow> (\<And>j. calls \<le> j \<Longrightarrow> j < k \<Longrightarrow> retried (fn j))
     \<Longrightarrow> \<not> retried (fn k) \<or> k = retries - 1
     \<Longrightarrow> retryTransaction_loop fn retries (Suc calls) calls = (fn k, Suc k)"
proof (induction "k - calls" arbitrary: calls)
  case 0
  then have eq: "calls = k" by simp
  from 0 have "\<not> retried (fn k) \<or> \<not> Suc k < retries" by auto
  with "0.prems"(1) show ?case
    unfolding eq
    by (subst retryTransaction_loop.simps) (auto simp: retried_def split: sum.splits)
next
  case (Suc d)
  then have lt: "calls < k" by simp
  with Suc.prems have r: "retried (fn calls)" by simp
  have step: "retryTransaction_loop fn retries (Suc calls) calls =
      retryTransaction_loop fn retries (Suc (Suc calls)) (Suc calls)"
    using r lt Suc.prems(1)
    by (subst retryTransaction_loop.simps) (auto simp: retried_def split: sum.splits)
  have "retryTransaction_loop fn retries (Suc (Suc calls)) (Suc calls) = (fn k, Suc k)"
  proof (rule Suc.hyps(1))
    show "d = k - Suc calls" using Suc.hyps(2) by simp
    show "k < retries" by (rule Suc.prems(1))
    show "Suc calls \<le> k" using lt by simp
    show "\<not> retried (fn k) \<or> k = retries - 1" by (rule Suc.prems(4))
    show "\<And>j. Suc calls \<le> j \<Longrightarrow> j < k \<Longrightarrow> retried (fn j)"
      using Suc.prems(3) by simp
  qed
  with step show ?case by simp
qed


lemma retryAsync_loop_exhaust:
  "calls < retries
     \<Longrightarrow> (\<And>j. calls \<le> j \<Longrightarrow> j < retries \<Longrightarrow> \<exists>e m. fn j = Inl e \<and> read_message e = Inr m)
     \<Longrightarrow> \<exists>e m. fn (retries - 1) = Inl e \<and> read_message e = Inr m \<and>
           retryAsync_loop fn retries calls calls =
            (Inl (Error (''Exceeded maximum retries for operation: '' @ m)), retries)"
proof (induction "retries - calls" arbitrary: calls)
  case 0
  then show ?case by simp
next
  case (Suc d)
  from Suc.prems obtain e m where e: "fn calls = Inl e" "read_message e = Inr m" by blast
  show ?case
  proof (cases "calls = retries - 1")
    case True
    with e Suc.prems(1) show ?thesis
      by (subst retryAsync_loop.simps) auto
  next
    case False
    with Suc.prems(1) have lt: "Suc calls < retries" by simp
    have step: "retryAsync_loop fn retries calls calls =
       retryAsync_loop fn retries (Suc calls) (Suc calls)"
      using e False Suc.prems(1) by (subst retryAsync_loop.simps) simp
    have "\<exists>e m. fn (retries - 1) = Inl e \<and> read_message e = Inr m \<and>
           retryAsync_loop fn retries (Suc calls) (Suc calls) =
            (Inl (Error (''Exceeded maximum retries for operation: '' @ m)), retries)"
    proof (rule Suc.hyps(1))
      show "d = retries - Suc calls" using Suc.hyps(2) by simp
      show "Suc calls < retries" by (rule lt)
      show "\<And>j. Suc calls \<le> j \<Longrightarrow> j < retries
          \<Longrightarrow> \<exists>e m. fn j = Inl e \<and> read_message e = Inr m"
        using Suc.prems(2) by simp
    qed
    with step show ?thesis by simp
  qed
qed


lemma retryAsync_unreadable:
  "0 < retries \<Longrightarrow> fn 0 = Inl e \<Longrightarrow> read_message e = Inl typeError
     \<Longrightarrow> retryAsync fn retries = (Inl typeError, 1)"
  unfolding retryAsync_def by (subst retryAsync_loop.simps) simp

text \<open>
  Where an attempt is made and every thrown value is one whose message can be read, both
  wrappers make exactly \<open>retries\<close> calls and then end with an error:
  \<open>retryTransaction\<close> rethrows the error of the last attempt, \<open>retryAsync\<close> wraps its
  message.
\<close>

lemma retry_exhausts_with_attempts:
  "0 < retries
     \<Longrightarrow> (\<forall>k<retries. \<exists>e. transactionFn k = Inl e \<and> recoverable e)
     \<Longrightarrow> (\<forall>k<retries. \<exists>e m. fn k = Inl e \<and> read_message e = Inr m)
     \<Longrightarrow> retryTransaction transactionFn retries = (transactionFn (retries - 1), retries)
       \<and> (\<exists>e m. fn (retries - 1) = Inl e \<and> read_message e = Inr m
               \<and> retryAsync fn retries =
                   (Inl (Error (''Exceeded maximum retries for operation: '' @ m)), retries))"
proof -
  assume pos: "0 < retries"
    and tx: "\<forall>k<retries. \<exists>e. transactionFn k = Inl e \<and> recoverable e"
    and as: "\<forall>k<retries. \<exists>e m. fn k = Inl e \<and> read_message e = Inr m"
  from pos have last: "retries - 1 < retries" by simp
  have "retryTransaction_loop transactionFn retries (Suc 0) 0
          = (transactionFn (retries - 1), Suc (retries - 1))"
  proof (rule retryTransaction_loop_first [OF last])
    show "0 \<le> retries - 1" by simp
    show "\<not> retried (transactionFn (retries - 1)) \<or> retries - 1 = retries - 1" by simp
    fix j assume "j < retries - 1"
    then have "j < retries" by simp
    with tx show "retried (transactionFn j)" by (auto simp: retried_def)
  qed
  then have first: "retryTransaction transactionFn retries = (transactionFn (retries - 1), retries)"
    using pos by (simp add: retryTransaction_def)
  from retryAsync_loop_exhaust [of 0 retries fn] pos as
  have "\<exists>e m. fn (retries - 1) = Inl e \<and> read_message e = Inr m \<and> retryAsync fn retries =
      (Inl (Error (''Exceeded maximum retries for operation: '' @ m)), retries)"
    by (simp add: retryAsync_def)
  with first show ?thesis by blast
qed


text \<open>
  Claim C5. \<open>retryTransaction\<close> classifies each failure: an \<open>Error\<close> whose message
  contains "not a recent slot" is recoverable and leads to another attempt while attempts
  remain; the first outcome that is not a recoverable error, or the outcome of the last
  attempt whatever it is, is what the caller gets, and no call is made after it.
  Here \<open>k\<close> is the number of that call, counted from 0.
\<close>

theorem retryTransaction_classifies:
  "k < retries \<Longrightarrow> (\<forall>j<k. retried (transactionFn j))
     \<Longrightarrow> \<not> retried (transactionFn k) \<or> k = retries - 1
     \<Longrightarrow> retryTransaction transactionFn retries = (transactionFn k, Suc k)
       \<and> (\<forall>e. recoverable e \<longleftrightarrow> (\<exists>p q. e = Error (p @ ''not a recent slot'' @ q)))"
  using retryTransaction_loop_first [of k retries 0 transactionFn]
  by (simp add: retryTransaction_def recoverable_iff)

theorem retryTransaction_classifies_witness:
  "retryTransaction
     (\<lambda>k. if k = 0 then Inl (Error ''Slot 7 is not a recent slot'')
           else (Inl (Error ''insufficient funds'') :: thrown + string)) 3
   = (Inl (Error ''insufficient funds''), 2)"
  using retryTransaction_classifies
    [of 1 3 "\<lambda>k. if k = 0 then Inl (Error ''Slot 7 is not a recent slot'')
                   else (Inl (Error ''insufficient funds'') :: thrown + string)"]
  by (simp add: retried_def)

section \<open>Waiting for a lookup table: \<open>fetchLookupTable\<close> and \<open>fetchAndValidateALT\<close>: properties\<close>

lemma fetchLookupTable_loop_found:
  "k < retries \<Longrightarrow> polls \<le> k \<Longrightarrow> (\<And>j. polls \<le> j \<Longrightarrow> j < k \<Longrightarrow> unresolved (p j))
     \<Longrightarrow> p k = Value v
     \<Longrightarrow> fetchLookupTable_loop p retries polls polls = (Inr v, Suc k)"
proof (induction "k - polls" arbitrary: polls)
  case 0
  then have "polls = k" by simp
  with 0 show ?case
    by (subst fetchLookupTable_loop.simps) simp
next
  case (Suc d)
  then have lt: "polls < k" by simp
  with Suc.prems have u: "unresolved (p polls)" by simp
  have step: "fetchLookupTable_loop p retries polls polls =
      fetchLookupTable_loop p retries (Suc polls) (Suc polls)"
    using u lt Suc.prems(1)
    by (subst fetchLookupTable_loop.simps) (auto simp: unresolved_def split: poll.splits)
  have "fetchLookupTable_loop p retries (Suc polls) (Suc polls) = (Inr v, Suc k)"
  proof (rule Suc.hyps(1))
    show "d = k - Suc polls" using Suc.hyps(2) by simp
    show "k < retries" by (rule Suc.prems(1))
    show "Suc polls \<le> k" using lt by simp
    show "p k = Value v" by (rule Suc.prems(4))
    show "\<And>j. Suc polls \<le> j \<Longrightarrow> j < k \<Longrightarrow> unresolved (p j)"
      using Suc.prems(3) by simp
  qed
  with step show ?case by simp
qed

lemma fetchLookupTable_loop_timeout:
  "polls \<le> retries \<Longrightarrow> (\<And>j. polls \<le> j \<Longrightarrow> j < retries \<Longrightarrow> unresolved (p j))
     \<Longrightarrow> fetchLookupTable_loop p retries polls polls =
          (Inl (Error ''Failed to fetch the Address Lookup Table account after retries.''),
           retries)"
proof (induction "retries - polls" arbitrary: polls)
  case 0
  then have "polls = retries" by simp
  then show ?case
    by (subst fetchLookupTable_loop.simps) simp
next
  case (Suc d)
  then have lt: "polls < retries" by simp
  with Suc.prems have u: "unresolved (p polls)" by simp
  have step: "fetchLookupTable_loop p retries polls polls =
      fetchLookupTable_loop p retries (Suc polls) (Suc polls)"
    using u lt
    by (subst fetchLookupTable_loop.simps) (auto simp: unresolved_def split: poll.splits)
  have "fetchLookupTable_loop p retries (Suc polls) (Suc polls) =
          (Inl (Error ''Failed to fetch the Address Lookup Table account after retries.''),
           retries)"
  proof (rule Suc.hyps(1))
    show "d = retries - Suc polls" using Suc.hyps(2) by simp
    show "Suc polls \<le> retries" using lt by simp
    show "\<And>j. Suc polls \<le> j \<Longrightarrow> j < retries \<Longrightarrow> unresolved (p j)"
      using Suc.prems(2) by simp
  qed
  with step show ?case by simp
qed

lemma fetchAndValidateALT_loop_found:
  "k < retries \<Longrightarrow> polls \<le> k \<Longrightarrow> (\<And>j. polls \<le> j \<Longrightarrow> j < k \<Longrightarrow> unresolved (p j))
     \<Longrightarrow> p k = Value v
     \<Longrightarrow> fetchAndValidateALT_loop p a retries (Suc polls) polls = (Inr (), Suc k)"
proof (induction "k - polls" arbitrary: polls)
  case 0
  then have "polls = k" by simp
  with 0 show ?case
    by (subst fetchAndValidateALT_loop.simps) simp
next
  case (Suc d)
  then have lt: "polls < k" by simp
  with Suc.prems have u: "unresolved (p polls)" by simp
  have step: "fetchAndValidateALT_loop p a retries (Suc polls) polls =
      fetchAndValidateALT_loop p a retries (Suc (Suc polls)) (Suc polls)"
    using u lt Suc.prems(1)
    by (subst fetchAndValidateALT_loop.simps) (auto simp: unresolved_def split: poll.splits)
  have "fetchAndValidateALT_loop p a retries (Suc (Suc polls)) (Suc polls) = (Inr (), Suc k)"
  proof (rule Suc.hyps(1))
    show "d = k - Suc polls" using Suc.hyps(2) by simp
    show "k < retries" by (rule Suc.prems(1))
    show "Suc polls \<le> k" using lt by simp
    show "p k = Value v" by (rule Suc.prems(4))
    show "\<And>j. Suc polls \<le> j \<Longrightarrow> j < k \<Longrightarrow> unresolved (p j)"
      using Suc.prems(3) by simp
  qed
  with step show ?case by simp
qed

lemma fetchAndValidateALT_loop_timeout:
  "polls \<le> retries \<Longrightarrow> (\<And>j. polls \<le> j \<Longrightarrow> j < retries \<Longrightarrow> unresolved (p j))
     \<Longrightarrow> fetchAndValidateALT_loop p a retries (Suc polls) polls =
          (Inl (Error (''Failed to fetch or validate ALT at address '' @ a)), retries)"
proof (induction "retries - polls" arbitrary: polls)
  case 0
  then have "polls = retries" by simp
  then show ?case
    by (subst fetchAndValidateALT_loop.simps) simp
next
  case (Suc d)
  then have lt: "polls < retries" by simp
  with Suc.prems have u: "unresolved (p polls)" by simp
  have step: "fetchAndValidateALT_loop p a retries (Suc polls) polls =
      fetchAndValidateALT_loop p a retries (Suc (Suc polls)) (Suc polls)"
    using u lt
    by (subst fetchAndValidateALT_loop.simps) (auto simp: unresolved_def split: poll.splits)
  have "fetchAndValidateALT_loop p a retries (Suc (Suc polls)) (Suc polls) =
          (Inl (Error (''Failed to fetch or validate ALT at address '' @ a)), retries)"
  proof (rule Suc.hyps(1))
    show "d = retries - Suc polls" using Suc.hyps(2) by simp
    show "Suc polls \<le> retries" using lt by simp
    show "\<And>j. Suc polls \<le> j \<Longrightarrow> j < retries \<Longrightarrow> unresolved (p j)"
      using Suc.prems(2) by simp
  qed
  with step show ?case by simp
qed

lemma first_resolved_None:
  "first_resolved p n = None \<longleftrightarrow> (\<forall>j<n. unresolved (p j))"
  by (induction n) (auto simp: less_Suc_eq unresolved_def split: option.splits poll.splits)

lemma first_resolved_Some:
  "first_resolved p n = Some (k, v) \<longleftrightarrow> k < n \<and> p k = Value v \<and> (\<forall>j<k. unresolved (p j))"
proof (induction n arbitrary: k v)
  case 0
  then show ?case by simp
next
  case (Suc n)
  show ?case
  proof (cases "first_resolved p n")
    case None
    then have all: "\<forall>j<n. unresolved (p j)" by (simp add: first_resolved_None)
    show ?thesis
    proof (cases "p n")
      case (Value w)
      have "k < Suc n \<and> p k = Value v \<and> (\<forall>j<k. unresolved (p j)) \<longleftrightarrow> k = n \<and> w = v"
        using all Value by (auto simp: less_Suc_eq unresolved_def)
      with None Value show ?thesis by auto
    next
      case Null
      then have "\<forall>j<Suc n. unresolved (p j)"
        using all by (auto simp: less_Suc_eq unresolved_def)
      with None Null show ?thesis by (auto simp: unresolved_def)
    next
      case Throws
      then have "\<forall>j<Suc n. unresolved (p j)"
        using all by (auto simp: less_Suc_eq unresolved_def)
      with None Throws show ?thesis by (auto simp: unresolved_def)
    qed
  next
    case (Some r)
    obtain k' v' where r: "r = (k', v')" by (cases r)
    with Some Suc.IH [of k' v']
    have kv: "k' < n" "p k' = Value v'" "\<forall>j<k'. unresolved (p j)" by simp_all
    have "k < Suc n \<and> p k = Value v \<and> (\<forall>j<k. unresolved (p j)) \<longleftrightarrow> k = k' \<and> v = v'"
    proof
      assume a: "k < Suc n \<and> p k = Value v \<and> (\<forall>j<k. unresolved (p j))"
      have "\<not> k < k'" using a kv by (auto simp: unresolved_def)
      moreover have "\<not> k' < k" using a kv by (auto simp: unresolved_def)
      ultimately have "k = k'" by simp
      with a kv show "k = k' \<and> v = v'" by simp
    next
      assume "k = k' \<and> v = v'"
      with kv show "k < Suc n \<and> p k = Value v \<and> (\<forall>j<k. unresolved (p j))" by simp
    qed
    with Some r show ?thesis by auto
  qed
qed

lemma fetchLookupTable_eq:
  "fetchLookupTable p retries =
     (case first_resolved p retries of
        Some (k, v) \<Rightarrow> (Inr v, Suc k)
      | None \<Rightarrow>
          (Inl (Error ''Failed to fetch the Address Lookup Table account after retries.''),
           retries))"
proof (cases "first_resolved p retries")
  case None
  then have "\<forall>j<retries. unresolved (p j)"
    by (simp add: first_resolved_None)
  then have "fetchLookupTable_loop p retries 0 0 =
      (Inl (Error ''Failed to fetch the Address Lookup Table account after retries.''),
       retries)"
    using fetchLookupTable_loop_timeout [of 0 retries p] by simp
  with None show ?thesis by (simp add: fetchLookupTable_def)
next
  case (Some r)
  obtain k v where r: "r = (k, v)" by (cases r)
  with Some have "k < retries" "p k = Value v" "\<forall>j<k. unresolved (p j)"
    by (simp_all add: first_resolved_Some)
  then have "fetchLookupTable_loop p retries 0 0 = (Inr v, Suc k)"
    using fetchLookupTable_loop_found [of k retries 0 p v] by simp
  with Some r show ?thesis by (simp add: fetchLookupTable_def)
qed

lemma fetchAndValidateALT_eq:
  "fetchAndValidateALT p a retries =
     (case first_resolved p retries of
        Some (k, v) \<Rightarrow> (Inr (), Suc k)
      | None \<Rightarrow> (Inl (Error (''Failed to fetch or validate ALT at address '' @ a)), retries))"
proof (cases "first_resolved p retries")
  case None
  then have "\<forall>j<retries. unresolved (p j)"
    by (simp add: first_resolved_None)
  then have "fetchAndValidateALT_loop p a retries (Suc 0) 0 =
      (Inl (Error (''Failed to fetch or validate ALT at address '' @ a)), retries)"
    using fetchAndValidateALT_loop_timeout [of 0 retries p a] by simp
  with None show ?thesis by (simp add: fetchAndValidateALT_def)
next
  case (Some r)
  obtain k v where r: "r = (k, v)" by (cases r)
  with Some have "k < retries" "p k = Value v" "\<forall>j<k. unresolved (p j)"
    by (simp_all add: first_resolved_Some)
  then have "fetchAndValidateALT_loop p a retries (Suc 0) 0 = (Inr (), Suc k)"
    using fetchAndValidateALT_loop_found [of k retries 0 p v a] by simp
  with Some r show ?thesis by (simp add: fetchAndValidateALT_def)
qed

text \<open>
  Claim C6. The poll returns as soon as one poll finds the table resolvable:
  \<open>fetchLookupTable\<close> returns the snapshot that poll delivered,
  \<open>fetchAndValidateALT\<close> returns without a value, and no further poll is made. After
  exactly \<open>retries\<close> unsuccessful polls (an empty answer or a thrown error) both fail
  with their timeout error. Neither polls more than \<open>retries\<close> times, and a snapshot
  that is returned is the one the last poll made has found, every earlier poll having
  failed.
\<close>

theorem awaitActive_poll:
  "(\<forall>k v. k < retries \<and> (\<forall>j<k. unresolved (p j)) \<and> p k = Value v \<longrightarrow>
       fetchLookupTable p retries = (Inr v, Suc k)
       \<and> fetchAndValidateALT p a retries = (Inr (), Suc k))
   \<and> ((\<forall>j<retries. unresolved (p j)) \<longrightarrow>
       fetchLookupTable p retries =
         (Inl (Error ''Failed to fetch the Address Lookup Table account after retries.''),
          retries)
       \<and> fetchAndValidateALT p a retries =
         (Inl (Error (''Failed to fetch or validate ALT at address '' @ a)), retries))
   \<and> snd (fetchLookupTable p retries) \<le> retries
   \<and> snd (fetchAndValidateALT p a retries) \<le> retries
   \<and> (\<forall>v n. fetchLookupTable p retries = (Inr v, n) \<longrightarrow>
         0 < n \<and> p (n - 1) = Value v \<and> (\<forall>j<n - 1. unresolved (p j)))"
proof (cases "first_resolved p retries")
  case None
  then have all: "\<forall>j<retries. unresolved (p j)"
    by (simp add: first_resolved_None)
  have no: "\<not> (k < retries \<and> (\<forall>j<k. unresolved (p j)) \<and> p k = Value v)" for k v
    using all by (auto simp: unresolved_def)
  from None show ?thesis
    by (simp add: fetchLookupTable_eq fetchAndValidateALT_eq no)
next
  case (Some r)
  obtain k v where r: "r = (k, v)" by (cases r)
  with Some have f: "first_resolved p retries = Some (k, v)" by simp
  then have kv: "k < retries" "p k = Value v" "\<forall>j<k. unresolved (p j)"
    by (simp_all add: first_resolved_Some)
  have uniq: "k' = k \<and> v' = v"
    if "k' < retries \<and> (\<forall>j<k'. unresolved (p j)) \<and> p k' = Value v'" for k' v'
  proof -
    from that have "first_resolved p retries = Some (k', v')"
      by (simp add: first_resolved_Some)
    with f show ?thesis by simp
  qed
  have some: "\<not> (\<forall>j<retries. unresolved (p j))"
    using kv by (auto simp: unresolved_def)
  have res: "fetchLookupTable p retries = (Inr v, Suc k)"
    "fetchAndValidateALT p a retries = (Inr (), Suc k)"
    using f by (simp_all add: fetchLookupTable_eq fetchAndValidateALT_eq)
  show ?thesis
  proof (intro conjI allI impI)
    fix k' v'
    assume h: "k' < retries \<and> (\<forall>j<k'. unresolved (p j)) \<and> p k' = Value v'"
    from uniq [OF h] res
    show "fetchLookupTable p retries = (Inr v', Suc k')"
      and "fetchAndValidateALT p a retries = (Inr (), Suc k')"
      by simp_all
  next
    assume "\<forall>j<retries. unresolved (p j)"
    with some show "fetchLookupTable p retries =
         (Inl (Error ''Failed to fetch the Address Lookup Table account after retries.''),
          retries)"
      and "fetchAndValidateALT p a retries =
         (Inl (Error (''Failed to fetch or validate ALT at address '' @ a)), retries)"
      by simp_all
  next
    show "snd (fetchLookupTable p retries) \<le> retries"
      and "snd (fetchAndValidateALT p a retries) \<le> retries"
      using res kv(1) by simp_all
  next
    fix v' n
    assume "fetchLookupTable p retries = (Inr v', n)"
    with res have "v' = v" "n = Suc k" by simp_all
    with kv show "0 < n" and "p (n - 1) = Value v'" and "\<And>j. j < n - 1 \<Longrightarrow> unresolved (p j)"
      by simp_all
  qed
qed

theorem awaitActive_poll_witness:
  "fetchLookupTable (\<lambda>k. if k = 0 then Null else if k = 1 then Throws else Value ''ALT'') 10
     = (Inr ''ALT'', 3)
   \<and> fetchAndValidateALT
       (\<lambda>k. if k = 0 then Null else if k = 1 then Throws else Value ''ALT'') ''addr'' 10
     = (Inr (), 3)
   \<and> fetchLookupTable (\<lambda>k. Null :: string poll) 10
     = (Inl (Error ''Failed to fetch the Address Lookup Table account after retries.''), 10)"
proof -
  let ?p = "\<lambda>k::nat. if k = 0 then Null else if k = 1 then Throws else Value ''ALT''"
  let ?q = "\<lambda>k::nat. Null :: string poll"
  have pre: "(2::nat) < 10 \<and> (\<forall>j<2. unresolved (?p j)) \<and> ?p 2 = Value ''ALT''"
    by (simp add: unresolved_def)
  have "fetchLookupTable ?p 10 = (Inr ''ALT'', Suc 2)
      \<and> fetchAndValidateALT ?p ''addr'' 10 = (Inr (), Suc 2)"
    using awaitActive_poll [of 10 ?p "''addr''"] pre by blast
  moreover have "\<forall>j<10. unresolved (?q j)"
    by (simp add: unresolved_def)
  then have "fetchLookupTable ?q 10 =
      (Inl (Error ''Failed to fetch the Address Lookup Table account after retries.''), 10)"
    using awaitActive_poll [of 10 ?q "''addr''"] by blast
  ultimately show ?thesis by (simp add: numeral_3_eq_3)
qed

section \<open>The relay path: \<open>onBundleResult\<close>, \<open>build_bundle\<close>, \<open>bull_dozer\<close>, \<open>bundle\<close>: properties\<close>

lemma fold_on_item_resolved: "isResolved s \<Longrightarrow> fold on_item items s = s"
proof (induction items)
  case Nil
  show ?case by simp
next
  case (Cons item items)
  then show ?case by (cases item) simp_all
qed

lemma accepts_Nil [simp]: "\<not> accepts []"
  by (simp add: accepts_def)

lemma accepts_Cons:
  "accepts (item # items) \<longleftrightarrow>
     (case item of Result result \<Rightarrow> accepted result \<noteq> None | StreamError \<Rightarrow> False)
     \<or> accepts items"
  by (simp add: accepts_def)

lemma accepts_iff:
  "accepts items \<longleftrightarrow> (\<exists>result. Result result \<in> set items \<and> accepted result \<noteq> None)"
proof (induction items)
  case Nil
  show ?case by (simp add: accepts_def)
next
  case (Cons item items)
  then show ?case by (cases item) (auto simp: accepts_Cons)
qed

lemma fold_on_item_initial:
  "fold on_item items \<lparr>first = 0, isResolved = False, settled = None\<rparr> =
     (if accepts items then \<lparr>first = 1, isResolved = True, settled = Some 1\<rparr>
      else \<lparr>first = 0, isResolved = False, settled = None\<rparr>)"
proof (induction items)
  case Nil
  show ?case by simp
next
  case (Cons item items)
  show ?case
  proof (cases item)
    case StreamError
    with Cons show ?thesis by (simp add: accepts_Cons)
  next
    case (Result result)
    show ?thesis
    proof (cases "accepted result")
      case None
      with Cons Result show ?thesis by (simp add: accepts_Cons)
    next
      case (Some slot)
      then have "on_item item \<lparr>first = 0, isResolved = False, settled = None\<rparr> =
          \<lparr>first = 1, isResolved = True, settled = Some 1\<rparr>"
        using Result by (simp add: resolve_def)
      with Some Result show ?thesis
        by (simp add: accepts_Cons fold_on_item_resolved del: on_item.simps)
    qed
  qed
qed

lemma onBundleResult_eq:
  "onBundleResult early late = Some (if accepts early then 1 else 0)"
  by (simp add: onBundleResult_def fold_on_item_initial on_timeout_def resolve_def
      fold_on_item_resolved)

lemma bull_dozer_eq:
  "bull_dozer search txs =
     Some ((\<exists>maybeBundle. build_bundle search 5 txs = Inr maybeBundle)
           \<and> accepts (results_before search))"
  by (cases "build_bundle search 5 txs") (simp_all add: bull_dozer_def onBundleResult_eq)

lemma nth_filtered_upt:
  "a \<le> b \<Longrightarrow> [xs ! j. j \<leftarrow> [a..<b], j < length xs] = take (b - a) (drop a xs)"
proof (induction b)
  case 0
  then show ?case by simp
next
  case (Suc b)
  show ?case
  proof (cases "a = Suc b")
    case True
    then show ?thesis by simp
  next
    case False
    with Suc.prems have le: "a \<le> b" by simp
    have split: "Suc b - a = Suc (b - a)" using le by simp
    show ?thesis
    proof (cases "b < length xs")
      case True
      then have "b - a < length (drop a xs)" using le by simp
      then have "take (Suc (b - a)) (drop a xs) = take (b - a) (drop a xs) @ [drop a xs ! (b - a)]"
        by (rule take_Suc_conv_app_nth)
      with True le Suc.IH show ?thesis by (simp add: split)
    next
      case False
      then have "take (Suc (b - a)) (drop a xs) = take (b - a) (drop a xs)" by simp
      with False le Suc.IH show ?thesis by (simp add: split)
    qed
  qed
qed

lemma newTxs_of_eq: "newTxs_of txs i = take 5 (drop (i * 5) txs)"
  unfolding newTxs_of_def by (subst nth_filtered_upt) simp_all

lemma less_txNum_iff: "i < nat \<lceil>real n / 5\<rceil> \<longleftrightarrow> i * 5 < n"
proof -
  have "i < nat \<lceil>real n / 5\<rceil> \<longleftrightarrow> int i < \<lceil>real n / 5\<rceil>"
    by (rule zless_nat_eq_int_zless)
  also have "\<dots> \<longleftrightarrow> real i < real n / 5" by (simp add: less_ceiling_iff)
  also have "\<dots> \<longleftrightarrow> real (i * 5) < real n" by (simp add: field_simps)
  also have "\<dots> \<longleftrightarrow> i * 5 < n" by (simp only: of_nat_less_iff)
  finally show ?thesis .
qed

lemma chunks_newTxs_of:
  "(\<And>k. k * 5 < length txs \<longleftrightarrow> k < N) \<Longrightarrow> i \<le> N
     \<Longrightarrow> map (newTxs_of txs) [i..<N] = chunks 5 (drop (i * 5) txs)"
proof (induction "N - i" arbitrary: i)
  case 0
  from "0.hyps" "0.prems"(2) have ge: "\<not> i < N" by arith
  with "0.prems"(1) have "\<not> i * 5 < length txs" by blast
  then have "drop (i * 5) txs = []" by simp
  with ge show ?case by simp
next
  case (Suc d)
  from Suc.hyps(2) have lt: "i < N" by arith
  with Suc.prems(1) have "i * 5 < length txs" by blast
  then have ne: "drop (i * 5) txs \<noteq> []" by simp
  have "map (newTxs_of txs) [Suc i..<N] = chunks 5 (drop (Suc i * 5) txs)"
  proof (rule Suc.hyps(1))
    show "d = N - Suc i" using Suc.hyps(2) by arith
    show "Suc i \<le> N" using lt by arith
    show "\<And>k. k * 5 < length txs \<longleftrightarrow> k < N" by (rule Suc.prems(1))
  qed
  moreover have "drop 5 (drop (i * 5) txs) = drop (Suc i * 5) txs"
    by (simp add: add.commute)
  ultimately show ?case
    using lt ne by (simp add: upt_conv_Cons chunks_step newTxs_of_eq)
qed

lemma bundle_loop_eq:
  "i \<le> txNum \<Longrightarrow>
     bundle_loop relay txs txNum i successNum submitted =
       Some (successNum
               + length (filter (\<lambda>k. bull_dozer (relay k) (newTxs_of txs k) = Some True)
                   [i..<txNum]),
             submitted @ map (newTxs_of txs) [i..<txNum])"
proof (induction "txNum - i" arbitrary: i successNum submitted)
  case 0
  then show ?case
    by (subst bundle_loop.simps) simp
next
  case (Suc d)
  then have lt: "i < txNum" by simp
  obtain success where s: "bull_dozer (relay i) (newTxs_of txs i) = Some success"
    by (simp add: bull_dozer_eq)
  have step: "bundle_loop relay txs txNum i successNum submitted =
      bundle_loop relay txs txNum (Suc i) (if success then successNum + 1 else successNum)
        (submitted @ [newTxs_of txs i])"
    using lt s by (subst bundle_loop.simps) (simp add: newTxs_of_def Let_def)
  have "bundle_loop relay txs txNum (Suc i) (if success then successNum + 1 else successNum)
        (submitted @ [newTxs_of txs i]) =
       Some ((if success then successNum + 1 else successNum)
               + length (filter (\<lambda>k. bull_dozer (relay k) (newTxs_of txs k) = Some True)
                   [Suc i..<txNum]),
             (submitted @ [newTxs_of txs i]) @ map (newTxs_of txs) [Suc i..<txNum])"
    using Suc.hyps lt by (intro Suc.hyps(1)) simp_all
  with step s lt show ?case
    by (simp add: upt_conv_Cons)
qed

lemma length_filter_full:
  "length (filter P xs) = length xs \<longleftrightarrow> (\<forall>x\<in>set xs. P x)"
proof (induction xs)
  case Nil
  show ?case by simp
next
  case (Cons x xs)
  have le: "length (filter P xs) \<le> length xs" by (rule length_filter_le)
  show ?case
  proof (cases "P x")
    case True
    with Cons show ?thesis by simp
  next
    case False
    from le have "length (filter P xs) \<noteq> Suc (length xs)" by arith
    with False show ?thesis by simp
  qed
qed

lemma bundle_txs_eq:
  "bundle_txs relay txs =
     Some ((\<forall>i<length (chunks 5 txs). bull_dozer (relay i) (chunks 5 txs ! i) = Some True),
           chunks 5 txs)"
proof -
  let ?n = "nat \<lceil>real (length txs) / 5\<rceil>"
  have c: "map (newTxs_of txs) [0..<?n] = chunks 5 txs"
    using chunks_newTxs_of [of txs ?n 0] by (simp add: less_txNum_iff)
  then have len: "length (chunks 5 txs) = ?n"
    by (metis length_map length_upt diff_zero)
  have nth: "chunks 5 txs ! i = newTxs_of txs i" if "i < ?n" for i
    using that c by (metis add.left_neutral nth_map_upt diff_zero)
  have "(length (filter (\<lambda>k. bull_dozer (relay k) (newTxs_of txs k) = Some True) [0..<?n]) = ?n)
        \<longleftrightarrow> (\<forall>i<?n. bull_dozer (relay i) (newTxs_of txs i) = Some True)"
    using length_filter_full [of "\<lambda>k. bull_dozer (relay k) (newTxs_of txs k) = Some True" "[0..<?n]"]
    by auto
  also have "\<dots> \<longleftrightarrow> (\<forall>i<?n. bull_dozer (relay i) (chunks 5 txs ! i) = Some True)"
    using nth by simp
  finally show ?thesis
    using c len by (simp add: bundle_txs_def Let_def bundle_loop_eq)
qed

lemma tip_index_bound:
  assumes "0 < n" "0 \<le> r" "r < 1"
  shows "tip_index n r < min n 4"
proof -
  have "r * real n < real n" using assms by simp
  then have "\<lfloor>r * real n\<rfloor> < int n" by (simp add: floor_less_iff)
  moreover have "0 \<le> \<lfloor>r * real n\<rfloor>" using assms by simp
  ultimately have "nat \<lfloor>r * real n\<rfloor> < n" by (simp only: nat_less_iff)
  then show ?thesis unfolding tip_index_def by arith
qed

lemma tip_index_hit:
  assumes "i < min n 4"
  shows "0 \<le> real i / real n \<and> real i / real n < 1 \<and> tip_index n (real i / real n) = i"
proof -
  from assms have n: "0 < n" and i: "i < n" "i \<le> 3" by simp_all
  have "real i / real n * real n = real i" using n by simp
  then have "nat \<lfloor>real i / real n * real n\<rfloor> = i" by simp
  with n i show ?thesis by (simp add: tip_index_def)
qed

lemma jitoFeeWallet_hit:
  assumes "i < 8"
  shows "0 \<le> real i / 8 \<and> real i / 8 < 1 \<and> jitoFeeWallet (real i / 8) = Some (tipAccounts ! i)"
proof -
  have len: "length tipAccounts = 8" by (simp add: tipAccounts_def)
  have "nat \<lfloor>8 * (real i / 8)\<rfloor> = i" by simp
  with assms len show ?thesis by (simp add: jitoFeeWallet_def)
qed

lemma jitoFeeWallet_in:
  assumes "0 \<le> r" "r < 1"
  shows "\<exists>a. jitoFeeWallet r = Some a \<and> a \<in> set tipAccounts"
proof -
  have len: "length tipAccounts = 8" by (simp add: tipAccounts_def)
  have "8 * r < 8" using assms by simp
  then have "\<lfloor>8 * r\<rfloor> < int 8" by (simp add: floor_less_iff)
  moreover have "0 \<le> \<lfloor>8 * r\<rfloor>" using assms by simp
  ultimately have "nat \<lfloor>8 * r\<rfloor> < 8" by (simp only: nat_less_iff)
  then have "nat \<lfloor>8 * r\<rfloor> < length tipAccounts" by (simp only: len)
  then show ?thesis by (simp add: jitoFeeWallet_def len)
qed

text \<open>
  Claim C8, as the code has it. In \<open>build_bundle\<close> the index is capped at 3: for every
  non-empty list and every draw the selected account is one of the first four entries
  of the list, and each of the first four entries (or of all, when the list is shorter)
  is selected for some draw. In \<open>jitoWithAxios\<close> the index is not capped: the selected
  account is an entry of the fixed list of eight, and every entry is selected for some
  draw.
\<close>

theorem tip_account_selection:
  "accounts \<noteq> [] \<Longrightarrow> 0 \<le> r \<Longrightarrow> r < 1 \<Longrightarrow>
     tip_index (length accounts) r < min (length accounts) 4
     \<and> tip_account accounts r = Some (accounts ! tip_index (length accounts) r)
     \<and> (\<forall>i<min (length accounts) 4.
           \<exists>r'. 0 \<le> r' \<and> r' < 1 \<and> tip_account accounts r' = Some (accounts ! i))
     \<and> (\<exists>a. jitoFeeWallet r = Some a \<and> a \<in> set tipAccounts)
     \<and> (\<forall>a\<in>set tipAccounts. \<exists>r'. 0 \<le> r' \<and> r' < 1 \<and> jitoFeeWallet r' = Some a)"
proof (intro conjI allI impI ballI)
  assume ne: "accounts \<noteq> []" and r: "0 \<le> r" "r < 1"
  from ne have pos: "0 < length accounts" by simp
  show b: "tip_index (length accounts) r < min (length accounts) 4"
    by (rule tip_index_bound [OF pos r])
  then show "tip_account accounts r = Some (accounts ! tip_index (length accounts) r)"
    by (simp add: tip_account_def)
  show "\<exists>a. jitoFeeWallet r = Some a \<and> a \<in> set tipAccounts"
    by (rule jitoFeeWallet_in [OF r])
next
  fix i
  assume "i < min (length accounts) 4"
  from tip_index_hit [OF this]
  have h: "0 \<le> real i / real (length accounts)" "real i / real (length accounts) < 1"
    "tip_index (length accounts) (real i / real (length accounts)) = i"
    by simp_all
  from \<open>i < min (length accounts) 4\<close> h(3)
  have "tip_account accounts (real i / real (length accounts)) = Some (accounts ! i)"
    by (simp add: tip_account_def)
  with h show "\<exists>r'. 0 \<le> r' \<and> r' < 1 \<and> tip_account accounts r' = Some (accounts ! i)"
    by blast
next
  fix a
  assume "a \<in> set tipAccounts"
  then obtain i where i: "i < length tipAccounts" "tipAccounts ! i = a"
    by (auto simp: in_set_conv_nth)
  have "length tipAccounts = 8" by (simp add: tipAccounts_def)
  with i have "i < 8" by simp
  from jitoFeeWallet_hit [OF this] i(2)
  show "\<exists>r'. 0 \<le> r' \<and> r' < 1 \<and> jitoFeeWallet r' = Some a"
    by blast
qed

theorem tip_account_selection_witness:
  "tip_account [''A'', ''B'', ''C'', ''D'', ''E''] (9 / 10) = Some ''D''
   \<and> (\<exists>a. jitoFeeWallet (9 / 10) = Some a \<and> a \<in> set tipAccounts)"
proof -
  let ?accounts = "[''A'', ''B'', ''C'', ''D'', ''E'']"
  have "tip_account ?accounts (9 / 10) = Some (?accounts ! tip_index (length ?accounts) (9 / 10))
        \<and> (\<exists>a. jitoFeeWallet (9 / 10) = Some a \<and> a \<in> set tipAccounts)"
    using tip_account_selection [of ?accounts "9 / 10"] by simp
  moreover have "tip_index (length ?accounts) (9 / 10) = 3"
    by (simp add: tip_index_def)
  ultimately show ?thesis by simp
qed

text \<open>
  Claim C8 as stated fails on \<open>build_bundle\<close>: with the eight published tip accounts,
  no draw selects the fifth one; and with an empty list nothing is selected at all.
\<close>

theorem tip_account_fifth_never_selected:
  "tip_account ([] :: string list) 0 = None
   \<and> \<not> (\<exists>r. 0 \<le> r \<and> r < 1 \<and> tip_account tipAccounts r = Some (tipAccounts ! 4))"
proof (rule conjI)
  show "tip_account ([] :: string list) 0 = None"
    by (simp add: tip_account_def tip_index_def)
next
  show "\<not> (\<exists>r. 0 \<le> r \<and> r < 1 \<and> tip_account tipAccounts r = Some (tipAccounts ! 4))"
  proof
    assume "\<exists>r. 0 \<le> r \<and> r < 1 \<and> tip_account tipAccounts r = Some (tipAccounts ! 4)"
    then obtain r where r: "0 \<le> r" "r < 1"
      and sel: "tip_account tipAccounts r = Some (tipAccounts ! 4)"
      by blast
    have len: "length tipAccounts = 8" by (simp add: tipAccounts_def)
    define idx where "idx = tip_index (length tipAccounts) r"
    have "idx < min (length tipAccounts) 4"
      unfolding idx_def by (rule tip_index_bound) (use r len in simp_all)
    then have small: "idx = 0 \<or> idx = 1 \<or> idx = 2 \<or> idx = 3" by arith
    from sel have "tipAccounts ! idx = tipAccounts ! 4"
      by (simp add: tip_account_def idx_def Let_def split: if_splits)
    with small show False
      by (auto simp: tipAccounts_def)
  qed
qed

lemma chunks_lengths: "b \<in> set (chunks n xs) \<Longrightarrow> 0 < length b \<and> length b \<le> n"
proof (induction n xs rule: chunks.induct)
  case (1 n xs)
  show ?case
  proof (cases "n = 0 \<or> xs = []")
    case True
    with "1.prems" show ?thesis by (simp add: chunks.simps)
  next
    case False
    then have pos: "0 < n" and ne: "xs \<noteq> []" by simp_all
    from "1.prems" have "b = take n xs \<or> b \<in> set (chunks n (drop n xs))"
      by (simp add: chunks_step [OF pos ne])
    then show ?thesis
    proof
      assume "b = take n xs"
      with pos ne show ?thesis by simp
    next
      assume "b \<in> set (chunks n (drop n xs))"
      with False "1.IH" show ?thesis by simp
    qed
  qed
qed

lemma length_chunks_5: "length (chunks 5 txs) = nat \<lceil>real (length txs) / 5\<rceil>"
proof -
  have "map (newTxs_of txs) [0..<nat \<lceil>real (length txs) / 5\<rceil>] = chunks 5 txs"
    using chunks_newTxs_of [of txs "nat \<lceil>real (length txs) / 5\<rceil>" 0]
    by (simp add: less_txNum_iff)
  then show ?thesis
    by (metis length_map length_upt diff_zero)
qed

lemma assemble_bundle_full:
  "length txs = 5 \<Longrightarrow> \<exists>e. assemble_bundle search 5 txs = Inl e"
  by (auto simp: assemble_bundle_def addTransactions_def addTipTx_def Let_def
      split: sum.splits option.splits)

lemma assemble_bundle_fits:
  "length txs < 5 \<Longrightarrow> getTipAccounts search = Inr accounts
     \<Longrightarrow> tip_account accounts (random search) = Some tipAccount
     \<Longrightarrow> getLatestBlockhash_processed search = Inr blockhash
     \<Longrightarrow> assemble_bundle search 5 txs =
          Inr \<lparr>transactions = map UserTx txs @ [TipTx tipAccount (JITO_FEE search) blockhash],
               transactionLimit = 5\<rparr>"
  by (simp add: assemble_bundle_def addTransactions_def addTipTx_def Let_def)

lemma chunks_first: "0 < n \<Longrightarrow> xs \<noteq> [] \<Longrightarrow> chunks n xs ! 0 = take n xs"
  by (simp add: chunks_step)

text \<open>
  A result of another bundle counts: \<open>onBundleResult\<close> does not compare
  \<open>result.bundleId\<close> with the identifier that \<open>sendBundle\<close> gave, so \<open>bundle\<close>
  returns true when the relay rejects its bundle and accepts a bundle of someone else.
\<close>

lemma bundle_true_on_foreign_acceptance:
  "bundle_txs
     (\<lambda>i. answering_relay
            [Result \<lparr>bundleId = ''bundle-1'', accepted = None, rejected = Some ''dropped''\<rparr>,
             Result \<lparr>bundleId = ''bundle-2'', accepted = Some 7, rejected = None\<rparr>])
     [1 :: nat]
   = Some (True, [[1]])"
proof -
  let ?s = "answering_relay
            [Result \<lparr>bundleId = ''bundle-1'', accepted = None, rejected = Some ''dropped''\<rparr>,
             Result \<lparr>bundleId = ''bundle-2'', accepted = Some 7, rejected = None\<rparr>]
              :: nat session"
  have c: "chunks 5 [1 :: nat] = [[1]]"
    by (simp add: chunks_step)
  have b: "bull_dozer ?s t = Some True" if "length t < 5" for t
    using that
    by (simp add: bull_dozer_eq build_bundle_def assemble_bundle_def
        addTransactions_def addTipTx_def Let_def tip_account_def tip_index_def
        answering_relay_def accepts_def tipAccounts_def)
  have "bundle_txs (\<lambda>i. ?s) [1 :: nat] =
      Some ((\<forall>i<length (chunks 5 [1 :: nat]). bull_dozer ?s (chunks 5 [1 :: nat] ! i) = Some True),
            chunks 5 [1 :: nat])"
    by (rule bundle_txs_eq)
  then show ?thesis
    unfolding c by (simp add: b)
qed

text \<open>
  Claim C7. The claim asks that the transactions go to the relay in \<open>\<lceil>n / 5\<rceil>\<close>
  successive bundles of at most five and that the result is true exactly when all of them
  were accepted. The code cuts the groups of five, but it builds each bundle with the
  limit 5, which counts the tip transaction: for a group of five \<open>addTipTx\<close> gives an
  error, \<open>sendBundle\<close> is not called, \<open>bull_dozer\<close> returns false, and so
  \<open>bundle\<close> returns false as soon as there are five transactions or more, whatever the
  relay does.
\<close>

theorem bundle_full_group_never_sent:
  "5 \<le> length txs \<Longrightarrow>
     (\<exists>e. assemble_bundle (relay 0) 5 (take 5 txs) = Inl e)
     \<and> bull_dozer (relay 0) (take 5 txs) = Some False
     \<and> (\<exists>submitted. bundle_txs relay txs = Some (False, submitted)
           \<and> length submitted = nat \<lceil>real (length txs) / 5\<rceil>
           \<and> concat submitted = txs
           \<and> submitted ! 0 = take 5 txs)"
proof -
  assume len: "5 \<le> length txs"
  then have ne: "txs \<noteq> []" and l5: "length (take 5 txs) = 5" by auto
  from assemble_bundle_full [OF l5]
  obtain e where a: "assemble_bundle (relay 0) 5 (take 5 txs) = Inl e" by blast
  then have b: "bull_dozer (relay 0) (take 5 txs) = Some False"
    by (simp add: bull_dozer_def build_bundle_def)
  have first: "chunks 5 txs ! 0 = take 5 txs"
    using ne by (simp add: chunks_first)
  have "0 < length (chunks 5 txs)"
    using ne by (simp add: chunks_step)
  with b first
  have "\<not> (\<forall>i<length (chunks 5 txs). bull_dozer (relay i) (chunks 5 txs ! i) = Some True)"
    by force
  then have "bundle_txs relay txs = Some (False, chunks 5 txs)"
    by (simp add: bundle_txs_eq)
  with a b first show ?thesis
    by (simp add: length_chunks_5 concat_chunks)
qed

theorem bundle_full_group_never_sent_witness:
  "bundle_txs
     (\<lambda>i. answering_relay
            [Result \<lparr>bundleId = ''bundle-1'', accepted = Some 7, rejected = None\<rparr>])
     [1, 2, 3, 4, 5, 6 :: nat]
     = Some (False, [[1, 2, 3, 4, 5], [6]])
   \<and> build_bundle
       (answering_relay
          [Result \<lparr>bundleId = ''bundle-1'', accepted = Some 7, rejected = None\<rparr>])
       5 [6 :: nat]
     = Inr \<lparr>transactions =
               [UserTx 6, TipTx ''Cw8CFyM9FkoMi7K7Crf6HNQqf4uEMzpKw6QNghXLvLkY'' 1000 ''blockhash''],
            transactionLimit = 5\<rparr>"
proof -
  let ?relay = "answering_relay
            [Result \<lparr>bundleId = ''bundle-1'', accepted = Some 7, rejected = None\<rparr>]
              :: nat session"
  let ?txs = "[1, 2, 3, 4, 5, 6 :: nat]"
  have "(5 :: nat) \<le> length ?txs" by simp
  from bundle_full_group_never_sent [OF this, of "\<lambda>i. ?relay"]
  obtain submitted where run: "bundle_txs (\<lambda>i. ?relay) ?txs = Some (False, submitted)"
    and l: "length submitted = nat \<lceil>real (length ?txs) / 5\<rceil>"
    and c: "concat submitted = ?txs"
    and f: "submitted ! 0 = take 5 ?txs"
    by blast
  have "\<lceil>(6::real) / 5\<rceil> = 2" by (simp add: ceiling_eq_iff)
  with l have l2: "length submitted = 2" by simp
  then obtain g1 g2 where s: "submitted = [g1, g2]"
    by (auto simp: length_Suc_conv numeral_2_eq_2)
  with f have g1: "g1 = [1, 2, 3, 4, 5]" by simp
  with c s have g2: "g2 = [6]" by simp
  have sent: "build_bundle ?relay 5 [6 :: nat]
     = Inr \<lparr>transactions =
               [UserTx 6, TipTx ''Cw8CFyM9FkoMi7K7Crf6HNQqf4uEMzpKw6QNghXLvLkY'' 1000 ''blockhash''],
            transactionLimit = 5\<rparr>"
    by (simp add: build_bundle_def assemble_bundle_def addTransactions_def addTipTx_def Let_def
        tip_account_def tip_index_def answering_relay_def tipAccounts_def)
  from run s g1 g2 sent show ?thesis by simp
qed

text \<open>
  Claim C9. With no transaction at all, \<open>bundle\<close> calls \<open>bull_dozer\<close> not once and
  returns true.
\<close>

theorem bundle_empty: "bundle_txs relay [] = Some (True, [])"
  by (simp add: bundle_txs_def bundle_loop.simps)

theorem bundle_empty_witness:
  "bundle_txs (\<lambda>i. answering_relay []) ([] :: nat list) = Some (True, [])"
  by (rule bundle_empty)

text \<open>
  Claim C2, as the code has it. The promise of \<open>onBundleResult\<close> is settled with 1 when
  an accepted result arrives before the timer and with 0 when the timer fires first. A
  rejected result is logged and changes nothing: without an accepted result before the
  timer the value is 0 and \<open>bull_dozer\<close> returns false, whether the relay was silent or
  rejected the bundle. Nothing the caller gets tells the two apart.
\<close>

theorem onBundleResult_without_acceptance:
  "\<not> accepts (results_before search) \<Longrightarrow>
     onBundleResult (results_before search) (results_after search) = Some 0
     \<and> bull_dozer search txs = Some False"
  by (simp add: onBundleResult_eq bull_dozer_eq)

theorem onBundleResult_without_acceptance_witness:
  "onBundleResult
     [Result \<lparr>bundleId = ''bundle-1'', accepted = None, rejected = Some ''simulation failure''\<rparr>]
     []
     = Some 0
   \<and> bull_dozer
       (answering_relay
          [Result \<lparr>bundleId = ''bundle-1'', accepted = None,
                   rejected = Some ''simulation failure''\<rparr>])
       [1, 2 :: nat] = Some False"
  using onBundleResult_without_acceptance
    [of "answering_relay
          [Result \<lparr>bundleId = ''bundle-1'', accepted = None,
                   rejected = Some ''simulation failure''\<rparr>] :: nat session" "[1, 2 :: nat]"]
  by (simp add: accepts_def answering_relay_def)

text \<open>
  Claim C2 as stated fails: a relay that stays silent until the timer fires and a relay
  that rejects the bundle give the same value of the promise and the same result of
  \<open>bull_dozer\<close>.
\<close>

theorem timeout_not_distinct_from_rejection:
  "onBundleResult [] [] = Some 0
   \<and> onBundleResult
       [Result \<lparr>bundleId = ''bundle-1'', accepted = None, rejected = Some ''simulation failure''\<rparr>]
       []
     = Some 0
   \<and> bull_dozer (answering_relay []) [1, 2 :: nat] = Some False
   \<and> bull_dozer
       (answering_relay
          [Result \<lparr>bundleId = ''bundle-1'', accepted = None,
                   rejected = Some ''simulation failure''\<rparr>])
       [1, 2 :: nat]
     = Some False"
  by (simp add: onBundleResult_def on_timeout_def resolve_def bull_dozer_def build_bundle_def
      assemble_bundle_def addTransactions_def addTipTx_def Let_def
      tip_account_def tip_index_def answering_relay_def tipAccounts_def)

section \<open>Packing and sending: the many-to-one sweep and the bundled sell: properties\<close>

lemma prepare_transfers_lockstep:
  "prepare_transfers getBalance destination n wallets (tis, sgs) = (tis', sgs')
     \<Longrightarrow> map fromPubkey tis = map publicKey sgs
     \<Longrightarrow> map fromPubkey tis' = map publicKey sgs' \<and> set sgs' \<subseteq> set sgs \<union> set wallets"
proof (induction wallets arbitrary: n tis sgs)
  case Nil
  then show ?case by simp
next
  case (Cons wallet wallets)
  show ?case
  proof (cases "getBalance n (publicKey wallet)")
    case (Inl error)
    with Cons.prems have
      "prepare_transfers getBalance destination (Suc n) wallets (tis, sgs) = (tis', sgs')"
      by simp
    from Cons.IH [OF this Cons.prems(2)] show ?thesis by auto
  next
    case (Inr balance)
    show ?thesis
    proof (cases "balance \<le> RENT_EXEMPT_MINIMUM + TRANSACTION_FEE")
      case True
      with Inr Cons.prems have
        "prepare_transfers getBalance destination (Suc n) wallets (tis, sgs) = (tis', sgs')"
        by simp
      from Cons.IH [OF this Cons.prems(2)] show ?thesis by auto
    next
      case False
      let ?ti = "\<lparr>fromPubkey = publicKey wallet, toPubkey = destination,
                   lamports = transfer_amount balance\<rparr>"
      from False Inr Cons.prems have run:
        "prepare_transfers getBalance destination (Suc n) wallets (tis @ [?ti], sgs @ [wallet])
           = (tis', sgs')"
        by simp
      have "map fromPubkey (tis @ [?ti]) = map publicKey (sgs @ [wallet])"
        using Cons.prems(2) by simp
      from Cons.IH [OF run this] show ?thesis by auto
    qed
  qed
qed

lemma chunks_map: "chunks n (map f xs) = map (map f) (chunks n xs)"
proof (induction n xs rule: chunks.induct)
  case (1 n xs)
  show ?case
  proof (cases "n = 0 \<or> xs = []")
    case True
    then show ?thesis by (auto simp: chunks.simps)
  next
    case False
    then have pos: "0 < n" and ne: "xs \<noteq> []" by simp_all
    from ne have ne': "map f xs \<noteq> []" by simp
    have "chunks n (map f (drop n xs)) = map (map f) (chunks n (drop n xs))"
      using False by (intro "1.IH") simp
    then show ?thesis
      by (simp add: chunks_step [OF pos ne] chunks_step [OF pos ne'] take_map drop_map)
  qed
qed

lemma length_chunks_cong:
  assumes "0 < n" "length xs = length ys"
  shows "length (chunks n xs) = length (chunks n ys)"
proof -
  have "length (chunks n xs) = length (map length (chunks n xs))" by simp
  also have "\<dots> = length (map length (chunks n ys))"
    using assms by (simp only: map_length_chunks)
  finally show ?thesis by simp
qed

lemma prepare_seven_wallets:
  "prepare_transfers (\<lambda>n k. Inr 10000000) 0 0 seven_wallets ([], []) =
     (map (\<lambda>w. \<lparr>fromPubkey = publicKey w, toPubkey = 0, lamports = 7955720\<rparr>) seven_wallets,
      seven_wallets)"
  by (simp add: seven_wallets_def RENT_EXEMPT_MINIMUM_def TRANSACTION_FEE_def transfer_amount_def
      SEND_FIXED_AMOUNT_def)

lemma chunks_seven:
  "length xs = 7 \<Longrightarrow> chunks 6 xs = [take 6 xs, drop 6 xs]"
proof -
  assume l: "length xs = 7"
  then have ne: "xs \<noteq> []" and ne': "drop 6 xs \<noteq> []" by auto
  have "chunks 6 xs = take 6 xs # chunks 6 (drop 6 xs)"
    by (rule chunks_step [OF _ ne]) simp
  also have "chunks 6 (drop 6 xs) = take 6 (drop 6 xs) # chunks 6 (drop 6 (drop 6 xs))"
    by (rule chunks_step [OF _ ne']) simp
  finally show ?thesis using l by simp
qed

lemma set_chunks_subset:
  "0 < n \<Longrightarrow> b \<in> set (chunks n xs) \<Longrightarrow> set b \<subseteq> set xs"
proof -
  assume "0 < n" and b: "b \<in> set (chunks n xs)"
  then have "concat (chunks n xs) = xs" by (simp add: concat_chunks)
  moreover from b have "set b \<subseteq> set (concat (chunks n xs))" by auto
  ultimately show ?thesis by simp
qed

lemma check_and_send_ok:
  "check_and_send connection limit tx = Inr out \<Longrightarrow> outcome_ok connection limit tx out"
  by (auto simp: check_and_send_def outcome_ok_def split: option.splits sum.splits if_splits)

lemma check_and_send_Inl:
  "check_and_send connection limit tx = Inl e
     \<Longrightarrow> sign connection tx = Some e
         \<or> (sign connection tx = None \<and> serialize_length connection tx = Inl e)"
  by (auto simp: check_and_send_def split: option.splits sum.splits if_splits)

lemma outcome_ok_size:
  assumes "outcome_ok connection limit tx out"
  shows "\<exists>size. serialize_length connection tx = Inr size
           \<and> (limit < size \<longleftrightarrow> out = Skipped tx)
           \<and> (size \<le> limit \<longleftrightarrow> sent_tx out = Some tx)"
proof -
  from assms obtain size where s: "serialize_length connection tx = Inr size"
    and c: "if size > limit then out = Skipped tx else sent_tx out = Some tx"
    by (auto simp: outcome_ok_def split: sum.splits)
  show ?thesis
  proof (cases "size > limit")
    case True
    with c have "out = Skipped tx" by simp
    with True s show ?thesis by simp
  next
    case False
    with c have "sent_tx out = Some tx" by simp
    moreover from this have "out \<noteq> Skipped tx" by auto
    ultimately show ?thesis using False s by simp
  qed
qed

lemma outcome_ok_sent:
  assumes "outcome_ok connection limit tx out" "sent_tx out = Some tx'"
  shows "\<exists>size. serialize_length connection tx' = Inr size \<and> size \<le> limit"
proof -
  from assms(1) have b: "batch_tx out = Some tx" by (simp add: outcome_ok_def)
  with assms(2) have "tx' = tx" by (cases out) simp_all
  with outcome_ok_size [OF assms(1)] assms(2) show ?thesis by auto
qed

lemma sweep_batch_ok:
  assumes "sweep_batch connection payerWallet lookupTableAccount ib sb i = Inr out"
  shows "\<exists>batchBlockhash. getLatestBlockhash connection i = Inr batchBlockhash
           \<and> outcome_ok connection 1232
                (batchTransaction payerWallet lookupTableAccount (ib ! i) (sb ! i) batchBlockhash)
                out"
  using assms
  by (auto simp: sweep_batch_def split: sum.splits if_splits intro: check_and_send_ok)

lemma sweep_batch_Inl:
  assumes "sweep_batch connection payerWallet lookupTableAccount ib sb i = Inl e"
    and "i < length sb"
  shows "getLatestBlockhash connection i = Inl e
         \<or> (\<exists>batchBlockhash. getLatestBlockhash connection i = Inr batchBlockhash
               \<and> (sign connection
                      (batchTransaction payerWallet lookupTableAccount (ib ! i) (sb ! i)
                         batchBlockhash) = Some e
                    \<or> sign connection
                         (batchTransaction payerWallet lookupTableAccount (ib ! i) (sb ! i)
                            batchBlockhash) = None
                       \<and> serialize_length connection
                           (batchTransaction payerWallet lookupTableAccount (ib ! i) (sb ! i)
                              batchBlockhash) = Inl e))"
  using assms
  by (auto simp: sweep_batch_def split: sum.splits if_splits dest: check_and_send_Inl)

text \<open>
  What the loop of the sweep returns: the outcomes of the batches from \<open>i\<close> on, up to the
  first batch whose body throws.
\<close>

lemma send_batches_run:
  assumes "send_batches connection payerWallet lookupTableAccount ib sb i outcomes
             = (outcomes', abort)"
    and "i \<le> length ib"
  shows "\<exists>news. outcomes' = outcomes @ news
           \<and> i + length news \<le> length ib
           \<and> (abort = None \<longleftrightarrow> i + length news = length ib)
           \<and> (\<forall>k<length news.
                 sweep_batch connection payerWallet lookupTableAccount ib sb (i + k)
                   = Inr (news ! k))
           \<and> (\<forall>e. abort = Some e \<longrightarrow>
                 sweep_batch connection payerWallet lookupTableAccount ib sb (i + length news)
                   = Inl e)"
  using assms
proof (induction "length ib - i" arbitrary: i outcomes)
  case 0
  then have "i = length ib" by simp
  with "0.prems"(1) have "outcomes' = outcomes" "abort = None"
    by (simp_all add: send_batches.simps)
  with \<open>i = length ib\<close> show ?case by simp
next
  case (Suc d)
  then have lt: "i < length ib" by simp
  let ?body = "sweep_batch connection payerWallet lookupTableAccount ib sb"
  show ?case
  proof (cases "?body i")
    case (Inl e)
    with Suc.prems(1) lt have "outcomes' = outcomes" "abort = Some e"
      by (simp_all add: send_batches.simps)
    with lt Inl show ?thesis by simp
  next
    case (Inr out)
    with Suc.prems(1) lt
    have run: "send_batches connection payerWallet lookupTableAccount ib sb (Suc i)
                 (outcomes @ [out]) = (outcomes', abort)"
      by (simp add: send_batches.simps)
    from Suc.hyps(2) lt have d: "d = length ib - Suc i" by simp
    from lt have le: "Suc i \<le> length ib" by simp
    from Suc.hyps(1) [OF d run le]
    obtain news where o: "outcomes' = (outcomes @ [out]) @ news"
      and l: "Suc i + length news \<le> length ib"
      and a: "abort = None \<longleftrightarrow> Suc i + length news = length ib"
      and b: "\<forall>k<length news. ?body (Suc i + k) = Inr (news ! k)"
      and f: "\<forall>e. abort = Some e \<longrightarrow> ?body (Suc i + length news) = Inl e"
      by blast
    have b': "?body (i + k) = Inr ((out # news) ! k)" if "k < length (out # news)" for k
    proof (cases k)
      case 0
      with Inr show ?thesis by simp
    next
      case (Suc k')
      with that have "k' < length news" by simp
      with b have "?body (Suc i + k') = Inr (news ! k')" by blast
      with Suc show ?thesis by simp
    qed
    show ?thesis
    proof (intro exI [of _ "out # news"] conjI)
      show "outcomes' = outcomes @ out # news" using o by simp
      show "i + length (out # news) \<le> length ib" using l by simp
      show "abort = None \<longleftrightarrow> i + length (out # news) = length ib" using a by simp
      show "\<forall>k<length (out # news). ?body (i + k) = Inr ((out # news) ! k)"
        using b' by blast
      show "\<forall>e. abort = Some e \<longrightarrow> ?body (i + length (out # news)) = Inl e"
        using f by simp
    qed
  qed
qed

lemma sell_batch_ok:
  assumes "sell_batch connection sdk altAuthority lookupTableAccount n batch = Inr out"
  shows "\<exists>ixs validSigners.
           collect_sells sdk batch ([], []) = Inr (ixs, validSigners)
           \<and> (ixs = [] \<and> out = NoInstructions
                \<or> ixs \<noteq> []
                   \<and> (\<exists>blockhash. getLatestBlockhash connection n = Inr blockhash
                         \<and> outcome_ok connection 1200
                              (sellTransaction altAuthority lookupTableAccount ixs validSigners
                                 blockhash) out))"
  using assms
  by (auto simp: sell_batch_def split: sum.splits if_splits prod.splits
      intro: check_and_send_ok)

lemma sell_batch_Inl:
  assumes "sell_batch connection sdk altAuthority lookupTableAccount n batch = Inl e"
  shows "collect_sells sdk batch ([], []) = Inl e
         \<or> (\<exists>ixs validSigners.
               collect_sells sdk batch ([], []) = Inr (ixs, validSigners) \<and> ixs \<noteq> []
               \<and> (getLatestBlockhash connection n = Inl e
                    \<or> (\<exists>blockhash. getLatestBlockhash connection n = Inr blockhash
                          \<and> (sign connection
                                 (sellTransaction altAuthority lookupTableAccount ixs
                                    validSigners blockhash) = Some e
                               \<or> sign connection
                                    (sellTransaction altAuthority lookupTableAccount ixs
                                       validSigners blockhash) = None
                                  \<and> serialize_length connection
                                      (sellTransaction altAuthority lookupTableAccount ixs
                                         validSigners blockhash) = Inl e))))"
  using assms
  by (auto simp: sell_batch_def split: sum.splits if_splits prod.splits
      dest: check_and_send_Inl)

text \<open>The same for the loop of the bundled sell.\<close>

lemma sell_batches_run:
  assumes "sell_batches connection sdk altAuthority lookupTableAccount n walletBatches outcomes
             = (outcomes', abort)"
  shows "\<exists>news. outcomes' = outcomes @ news
           \<and> length news \<le> length walletBatches
           \<and> (abort = None \<longleftrightarrow> length news = length walletBatches)
           \<and> (\<forall>k<length news.
                 sell_batch connection sdk altAuthority lookupTableAccount (n + k)
                   (walletBatches ! k) = Inr (news ! k))
           \<and> (\<forall>e. abort = Some e \<longrightarrow>
                 sell_batch connection sdk altAuthority lookupTableAccount (n + length news)
                   (walletBatches ! length news) = Inl e)"
  using assms
proof (induction walletBatches arbitrary: n outcomes)
  case Nil
  then show ?case by simp
next
  case (Cons batch rest)
  let ?body = "sell_batch connection sdk altAuthority lookupTableAccount"
  show ?case
  proof (cases "?body n batch")
    case (Inl e)
    with Cons.prems have "outcomes' = outcomes" "abort = Some e" by simp_all
    with Inl show ?thesis by simp
  next
    case (Inr out)
    with Cons.prems
    have run: "sell_batches connection sdk altAuthority lookupTableAccount (Suc n) rest
                 (outcomes @ [out]) = (outcomes', abort)"
      by simp
    from Cons.IH [OF run]
    obtain news where o: "outcomes' = (outcomes @ [out]) @ news"
      and l: "length news \<le> length rest"
      and a: "abort = None \<longleftrightarrow> length news = length rest"
      and b: "\<forall>k<length news. ?body (Suc n + k) (rest ! k) = Inr (news ! k)"
      and f: "\<forall>e. abort = Some e \<longrightarrow> ?body (Suc n + length news) (rest ! length news) = Inl e"
      by blast
    have b': "?body (n + k) ((batch # rest) ! k) = Inr ((out # news) ! k)"
      if "k < length (out # news)" for k
    proof (cases k)
      case 0
      with Inr show ?thesis by simp
    next
      case (Suc k')
      with that have "k' < length news" by simp
      with b have "?body (Suc n + k') (rest ! k') = Inr (news ! k')" by blast
      with Suc show ?thesis by simp
    qed
    show ?thesis
    proof (intro exI [of _ "out # news"] conjI)
      show "outcomes' = outcomes @ out # news" using o by simp
      show "length (out # news) \<le> length (batch # rest)" using l by simp
      show "abort = None \<longleftrightarrow> length (out # news) = length (batch # rest)" using a by simp
      show "\<forall>k<length (out # news).
              ?body (n + k) ((batch # rest) ! k) = Inr ((out # news) ! k)"
        using b' by blast
      show "\<forall>e. abort = Some e \<longrightarrow>
              ?body (n + length (out # news)) ((batch # rest) ! length (out # news)) = Inl e"
        using f by simp
    qed
  qed
qed

lemma prepare_transfers_lengths:
  "length (snd (prepare_transfers getBalance destination 0 wallets ([], [])))
     = length (fst (prepare_transfers getBalance destination 0 wallets ([], [])))"
proof -
  obtain tis sgs where p: "prepare_transfers getBalance destination 0 wallets ([], []) = (tis, sgs)"
    by (cases "prepare_transfers getBalance destination 0 wallets ([], [])")
  from prepare_transfers_lockstep [OF p] have "map fromPubkey tis = map publicKey sgs" by simp
  then have "length tis = length sgs" by (metis length_map)
  with p show ?thesis by simp
qed

lemma sweep_run:
  "\<exists>outcomes abort.
      sweep connection getBalance payerWallet destination lookupTableAccount wallets
        = Some (outcomes, abort)
      \<and> send_batches connection payerWallet lookupTableAccount
          (chunks MAX_WALLETS_PER_TRANSACTION
             (fst (prepare_transfers getBalance destination 0 wallets ([], []))))
          (chunks MAX_WALLETS_PER_TRANSACTION
             (snd (prepare_transfers getBalance destination 0 wallets ([], [])))) 0 []
        = (outcomes, abort)"
proof -
  let ?tis = "fst (prepare_transfers getBalance destination 0 wallets ([], []))"
  let ?sgs = "snd (prepare_transfers getBalance destination 0 wallets ([], []))"
  have pos: "0 < MAX_WALLETS_PER_TRANSACTION" by (simp add: MAX_WALLETS_PER_TRANSACTION_def)
  obtain outcomes abort where
    run: "send_batches connection payerWallet lookupTableAccount
            (chunks MAX_WALLETS_PER_TRANSACTION ?tis) (chunks MAX_WALLETS_PER_TRANSACTION ?sgs)
            0 [] = (outcomes, abort)"
    by (cases "send_batches connection payerWallet lookupTableAccount
            (chunks MAX_WALLETS_PER_TRANSACTION ?tis) (chunks MAX_WALLETS_PER_TRANSACTION ?sgs)
            0 []")
  show ?thesis
  proof (cases "?tis = []")
    case True
    with run have "outcomes = []" "abort = None" by (simp_all add: send_batches.simps)
    moreover have "sweep connection getBalance payerWallet destination lookupTableAccount wallets
        = Some ([], None)"
      by (simp add: sweep_def case_prod_beta True)
    ultimately show ?thesis using run by simp
  next
    case False
    have "sweep connection getBalance payerWallet destination lookupTableAccount wallets
        = Some (outcomes, abort)"
      by (simp add: sweep_def case_prod_beta False batchArray_chunks [OF pos] run)
    with run show ?thesis by blast
  qed
qed

text \<open>
  Claim C1. Whatever the client answers, and whether the script runs to its end or is
  ended early by an error, the following holds. In the sweep, the batches are dealt with in
  order; each batch that has an outcome is one whole chunk of the transfer instructions,
  its transaction was signed and serialized, it was skipped as a whole when its
  serialized size exceeds 1232 bytes and handed to \<open>sendTransaction\<close> otherwise, so every
  transaction sent has at most 1232 bytes. The script deals with every chunk unless it
  is ended early, and it is ended early only by an error of the blockhash request, of the
  signing or of the serialization of the first batch without an outcome (that batch and
  the batches after it are not sent). In the bundled sell the same holds with the sell
  instructions of one whole chunk of the wallets and a limit of 1200 bytes (a stricter
  limit, below the ceiling); a batch without instructions is left out, and the script is
  also ended early by an error while the instructions of a batch are collected. No
  transaction is cut or split to make it fit.
\<close>

theorem submitted_batches_within_ceiling:
  "(\<exists>outcomes abort.
      sweep connection getBalance payerWallet destination lookupTableAccount wallets
        = Some (outcomes, abort)
      \<and> length outcomes
          \<le> length (chunks MAX_WALLETS_PER_TRANSACTION
                      (fst (prepare_transfers getBalance destination 0 wallets ([], []))))
      \<and> (abort = None \<longleftrightarrow>
            length outcomes
              = length (chunks MAX_WALLETS_PER_TRANSACTION
                          (fst (prepare_transfers getBalance destination 0 wallets ([], [])))))
      \<and> (\<forall>out\<in>set outcomes. \<forall>tx. sent_tx out = Some tx \<longrightarrow>
            (\<exists>size. serialize_length connection tx = Inr size \<and> size \<le> 1232))
      \<and> (\<forall>i<length outcomes. \<exists>batchBlockhash tx size.
            getLatestBlockhash connection i = Inr batchBlockhash
            \<and> tx = batchTransaction payerWallet lookupTableAccount
                     (chunks MAX_WALLETS_PER_TRANSACTION
                        (fst (prepare_transfers getBalance destination 0 wallets ([], []))) ! i)
                     (chunks MAX_WALLETS_PER_TRANSACTION
                        (snd (prepare_transfers getBalance destination 0 wallets ([], []))) ! i)
                     batchBlockhash
            \<and> batch_tx (outcomes ! i) = Some tx
            \<and> instructions tx =
                chunks MAX_WALLETS_PER_TRANSACTION
                  (fst (prepare_transfers getBalance destination 0 wallets ([], []))) ! i
            \<and> sign connection tx = None
            \<and> serialize_length connection tx = Inr size
            \<and> (1232 < size \<longleftrightarrow> outcomes ! i = Skipped tx)
            \<and> (size \<le> 1232 \<longleftrightarrow> sent_tx (outcomes ! i) = Some tx))
      \<and> (\<forall>e. abort = Some e \<longrightarrow>
            getLatestBlockhash connection (length outcomes) = Inl e
            \<or> (\<exists>batchBlockhash tx.
                  getLatestBlockhash connection (length outcomes) = Inr batchBlockhash
                  \<and> tx = batchTransaction payerWallet lookupTableAccount
                           (chunks MAX_WALLETS_PER_TRANSACTION
                              (fst (prepare_transfers getBalance destination 0 wallets ([], [])))
                            ! length outcomes)
                           (chunks MAX_WALLETS_PER_TRANSACTION
                              (snd (prepare_transfers getBalance destination 0 wallets ([], [])))
                            ! length outcomes)
                           batchBlockhash
                  \<and> (sign connection tx = Some e
                       \<or> sign connection tx = None \<and> serialize_length connection tx = Inl e))))
   \<and> (\<exists>outcomes abort.
        sell connection' sdk altAuthority lookupTableAccount' sellerWallets
          = Some (outcomes, abort)
        \<and> length outcomes \<le> length (chunks MAX_WALLETS_PER_TX sellerWallets)
        \<and> (abort = None \<longleftrightarrow>
              length outcomes = length (chunks MAX_WALLETS_PER_TX sellerWallets))
        \<and> (\<forall>out\<in>set outcomes. \<forall>tx. sent_tx out = Some tx \<longrightarrow>
              (\<exists>size. serialize_length connection' tx = Inr size \<and> size \<le> 1200 \<and> size \<le> 1232))
        \<and> (\<forall>i<length outcomes. \<exists>ixs validSigners.
              collect_sells sdk (chunks MAX_WALLETS_PER_TX sellerWallets ! i) ([], [])
                = Inr (ixs, validSigners)
              \<and> (ixs = [] \<and> outcomes ! i = NoInstructions
                   \<or> ixs \<noteq> []
                      \<and> (\<exists>blockhash tx size.
                            getLatestBlockhash connection' i = Inr blockhash
                            \<and> tx = sellTransaction altAuthority lookupTableAccount' ixs
                                     validSigners blockhash
                            \<and> batch_tx (outcomes ! i) = Some tx
                            \<and> instructions tx = ixs
                            \<and> sign connection' tx = None
                            \<and> serialize_length connection' tx = Inr size
                            \<and> (1200 < size \<longleftrightarrow> outcomes ! i = Skipped tx)
                            \<and> (size \<le> 1200 \<longleftrightarrow> sent_tx (outcomes ! i) = Some tx))))
        \<and> (\<forall>e. abort = Some e \<longrightarrow>
              collect_sells sdk (chunks MAX_WALLETS_PER_TX sellerWallets ! length outcomes)
                ([], []) = Inl e
              \<or> (\<exists>ixs validSigners.
                    collect_sells sdk (chunks MAX_WALLETS_PER_TX sellerWallets ! length outcomes)
                      ([], []) = Inr (ixs, validSigners)
                    \<and> ixs \<noteq> []
                    \<and> (getLatestBlockhash connection' (length outcomes) = Inl e
                         \<or> (\<exists>blockhash tx.
                               getLatestBlockhash connection' (length outcomes) = Inr blockhash
                               \<and> tx = sellTransaction altAuthority lookupTableAccount' ixs
                                        validSigners blockhash
                               \<and> (sign connection' tx = Some e
                                    \<or> sign connection' tx = None
                                       \<and> serialize_length connection' tx = Inl e))))))"
proof (rule conjI)
  let ?tis = "fst (prepare_transfers getBalance destination 0 wallets ([], []))"
  let ?sgs = "snd (prepare_transfers getBalance destination 0 wallets ([], []))"
  let ?ib = "chunks MAX_WALLETS_PER_TRANSACTION ?tis"
  let ?sb = "chunks MAX_WALLETS_PER_TRANSACTION ?sgs"
  let ?T = "\<lambda>i h. batchTransaction payerWallet lookupTableAccount (?ib ! i) (?sb ! i) h"
  let ?body = "sweep_batch connection payerWallet lookupTableAccount ?ib ?sb"
  have pos: "0 < MAX_WALLETS_PER_TRANSACTION" by (simp add: MAX_WALLETS_PER_TRANSACTION_def)
  have lsb: "length ?sb = length ?ib"
    by (rule length_chunks_cong [OF pos prepare_transfers_lengths])
  from sweep_run [of connection getBalance payerWallet destination lookupTableAccount wallets]
  obtain outcomes abort where
    run: "sweep connection getBalance payerWallet destination lookupTableAccount wallets
            = Some (outcomes, abort)"
    and loop: "send_batches connection payerWallet lookupTableAccount ?ib ?sb 0 []
            = (outcomes, abort)"
    by blast
  from send_batches_run [OF loop]
  have len: "length outcomes \<le> length ?ib"
    and ab: "abort = None \<longleftrightarrow> length outcomes = length ?ib"
    and body: "\<forall>k<length outcomes. ?body k = Inr (outcomes ! k)"
    and fail: "\<forall>e. abort = Some e \<longrightarrow> ?body (length outcomes) = Inl e"
    by auto
  have each: "\<exists>batchBlockhash tx size.
      getLatestBlockhash connection i = Inr batchBlockhash
      \<and> tx = ?T i batchBlockhash
      \<and> batch_tx (outcomes ! i) = Some tx
      \<and> instructions tx = ?ib ! i
      \<and> sign connection tx = None
      \<and> serialize_length connection tx = Inr size
      \<and> (1232 < size \<longleftrightarrow> outcomes ! i = Skipped tx)
      \<and> (size \<le> 1232 \<longleftrightarrow> sent_tx (outcomes ! i) = Some tx)"
    if i: "i < length outcomes" for i
  proof -
    from body i have "?body i = Inr (outcomes ! i)" by blast
    from sweep_batch_ok [OF this]
    obtain h where h: "getLatestBlockhash connection i = Inr h"
      and ok: "outcome_ok connection 1232 (?T i h) (outcomes ! i)"
      by blast
    from ok have b: "batch_tx (outcomes ! i) = Some (?T i h)"
      and s: "sign connection (?T i h) = None"
      by (simp_all add: outcome_ok_def)
    have ins: "instructions (?T i h) = ?ib ! i" by (simp add: batchTransaction_def)
    from outcome_ok_size [OF ok]
    obtain size where z: "serialize_length connection (?T i h) = Inr size"
      "1232 < size \<longleftrightarrow> outcomes ! i = Skipped (?T i h)"
      "size \<le> 1232 \<longleftrightarrow> sent_tx (outcomes ! i) = Some (?T i h)"
      by blast
    show ?thesis
      by (intro exI [of _ h] exI [of _ "?T i h"] exI [of _ size] conjI)
         (rule h refl b ins s z)+
  qed
  have bound: "\<exists>size. serialize_length connection tx = Inr size \<and> size \<le> 1232"
    if out: "out \<in> set outcomes" and sent: "sent_tx out = Some tx" for out tx
  proof -
    from out obtain i where i: "i < length outcomes" and o: "outcomes ! i = out"
      by (auto simp: in_set_conv_nth)
    from body i have "?body i = Inr (outcomes ! i)" by blast
    from sweep_batch_ok [OF this]
    obtain h where "outcome_ok connection 1232 (?T i h) (outcomes ! i)" by blast
    with o have "outcome_ok connection 1232 (?T i h) out" by simp
    from outcome_ok_sent [OF this sent] show ?thesis .
  qed
  have cause: "getLatestBlockhash connection (length outcomes) = Inl e
      \<or> (\<exists>batchBlockhash tx.
            getLatestBlockhash connection (length outcomes) = Inr batchBlockhash
            \<and> tx = ?T (length outcomes) batchBlockhash
            \<and> (sign connection tx = Some e
                 \<or> sign connection tx = None \<and> serialize_length connection tx = Inl e))"
    if a: "abort = Some e" for e
  proof -
    from fail a have f: "?body (length outcomes) = Inl e" by blast
    from a ab len have "length outcomes < length ?ib" by auto
    with lsb have "length outcomes < length ?sb" by simp
    from sweep_batch_Inl [OF f this] show ?thesis by blast
  qed
  show "\<exists>outcomes abort.
      sweep connection getBalance payerWallet destination lookupTableAccount wallets
        = Some (outcomes, abort)
      \<and> length outcomes \<le> length ?ib
      \<and> (abort = None \<longleftrightarrow> length outcomes = length ?ib)
      \<and> (\<forall>out\<in>set outcomes. \<forall>tx. sent_tx out = Some tx \<longrightarrow>
            (\<exists>size. serialize_length connection tx = Inr size \<and> size \<le> 1232))
      \<and> (\<forall>i<length outcomes. \<exists>batchBlockhash tx size.
            getLatestBlockhash connection i = Inr batchBlockhash
            \<and> tx = ?T i batchBlockhash
            \<and> batch_tx (outcomes ! i) = Some tx
            \<and> instructions tx = ?ib ! i
            \<and> sign connection tx = None
            \<and> serialize_length connection tx = Inr size
            \<and> (1232 < size \<longleftrightarrow> outcomes ! i = Skipped tx)
            \<and> (size \<le> 1232 \<longleftrightarrow> sent_tx (outcomes ! i) = Some tx))
      \<and> (\<forall>e. abort = Some e \<longrightarrow>
            getLatestBlockhash connection (length outcomes) = Inl e
            \<or> (\<exists>batchBlockhash tx.
                  getLatestBlockhash connection (length outcomes) = Inr batchBlockhash
                  \<and> tx = ?T (length outcomes) batchBlockhash
                  \<and> (sign connection tx = Some e
                       \<or> sign connection tx = None \<and> serialize_length connection tx = Inl e)))"
    using run len ab bound each cause
    by (intro exI [of _ outcomes] exI [of _ abort] conjI) blast+
next
  let ?wb = "chunks MAX_WALLETS_PER_TX sellerWallets"
  let ?S = "sellTransaction altAuthority lookupTableAccount'"
  let ?body = "sell_batch connection' sdk altAuthority lookupTableAccount'"
  have pos: "0 < MAX_WALLETS_PER_TX" by (simp add: MAX_WALLETS_PER_TX_def)
  obtain outcomes abort where
    loop: "sell_batches connection' sdk altAuthority lookupTableAccount' 0 ?wb []
            = (outcomes, abort)"
    by (cases "sell_batches connection' sdk altAuthority lookupTableAccount' 0 ?wb []")
  then have run: "sell connection' sdk altAuthority lookupTableAccount' sellerWallets
      = Some (outcomes, abort)"
    by (simp add: sell_def batchArray_chunks [OF pos])
  from sell_batches_run [OF loop]
  have len: "length outcomes \<le> length ?wb"
    and ab: "abort = None \<longleftrightarrow> length outcomes = length ?wb"
    and body: "\<forall>k<length outcomes. ?body k (?wb ! k) = Inr (outcomes ! k)"
    and fail: "\<forall>e. abort = Some e \<longrightarrow> ?body (length outcomes) (?wb ! length outcomes) = Inl e"
    by auto
  have each: "\<exists>ixs validSigners.
      collect_sells sdk (?wb ! i) ([], []) = Inr (ixs, validSigners)
      \<and> (ixs = [] \<and> outcomes ! i = NoInstructions
           \<or> ixs \<noteq> []
              \<and> (\<exists>blockhash tx size.
                    getLatestBlockhash connection' i = Inr blockhash
                    \<and> tx = ?S ixs validSigners blockhash
                    \<and> batch_tx (outcomes ! i) = Some tx
                    \<and> instructions tx = ixs
                    \<and> sign connection' tx = None
                    \<and> serialize_length connection' tx = Inr size
                    \<and> (1200 < size \<longleftrightarrow> outcomes ! i = Skipped tx)
                    \<and> (size \<le> 1200 \<longleftrightarrow> sent_tx (outcomes ! i) = Some tx)))"
    if i: "i < length outcomes" for i
  proof -
    from body i have "?body i (?wb ! i) = Inr (outcomes ! i)" by blast
    from sell_batch_ok [OF this]
    obtain ixs vs where c: "collect_sells sdk (?wb ! i) ([], []) = Inr (ixs, vs)"
      and d: "ixs = [] \<and> outcomes ! i = NoInstructions
              \<or> ixs \<noteq> []
                 \<and> (\<exists>blockhash. getLatestBlockhash connection' i = Inr blockhash
                       \<and> outcome_ok connection' 1200 (?S ixs vs blockhash) (outcomes ! i))"
      by blast
    have "ixs = [] \<and> outcomes ! i = NoInstructions
           \<or> ixs \<noteq> []
              \<and> (\<exists>blockhash tx size.
                    getLatestBlockhash connection' i = Inr blockhash
                    \<and> tx = ?S ixs vs blockhash
                    \<and> batch_tx (outcomes ! i) = Some tx
                    \<and> instructions tx = ixs
                    \<and> sign connection' tx = None
                    \<and> serialize_length connection' tx = Inr size
                    \<and> (1200 < size \<longleftrightarrow> outcomes ! i = Skipped tx)
                    \<and> (size \<le> 1200 \<longleftrightarrow> sent_tx (outcomes ! i) = Some tx))"
    proof (cases "ixs = []")
      case True
      with d show ?thesis by simp
    next
      case False
      with d obtain h where h: "getLatestBlockhash connection' i = Inr h"
        and ok: "outcome_ok connection' 1200 (?S ixs vs h) (outcomes ! i)"
        by blast
      from ok have b: "batch_tx (outcomes ! i) = Some (?S ixs vs h)"
        and s: "sign connection' (?S ixs vs h) = None"
        by (simp_all add: outcome_ok_def)
      have ins: "instructions (?S ixs vs h) = ixs" by (simp add: sellTransaction_def)
      from outcome_ok_size [OF ok]
      obtain size where z: "serialize_length connection' (?S ixs vs h) = Inr size"
        "1200 < size \<longleftrightarrow> outcomes ! i = Skipped (?S ixs vs h)"
        "size \<le> 1200 \<longleftrightarrow> sent_tx (outcomes ! i) = Some (?S ixs vs h)"
        by blast
      have "\<exists>blockhash tx size.
                    getLatestBlockhash connection' i = Inr blockhash
                    \<and> tx = ?S ixs vs blockhash
                    \<and> batch_tx (outcomes ! i) = Some tx
                    \<and> instructions tx = ixs
                    \<and> sign connection' tx = None
                    \<and> serialize_length connection' tx = Inr size
                    \<and> (1200 < size \<longleftrightarrow> outcomes ! i = Skipped tx)
                    \<and> (size \<le> 1200 \<longleftrightarrow> sent_tx (outcomes ! i) = Some tx)"
        by (intro exI [of _ h] exI [of _ "?S ixs vs h"] exI [of _ size] conjI)
           (rule h refl b ins s z)+
      with False show ?thesis by blast
    qed
    with c show ?thesis by blast
  qed
  have bound: "\<exists>size. serialize_length connection' tx = Inr size \<and> size \<le> 1200 \<and> size \<le> 1232"
    if out: "out \<in> set outcomes" and sent: "sent_tx out = Some tx" for out tx
  proof -
    from out obtain i where i: "i < length outcomes" and o: "outcomes ! i = out"
      by (auto simp: in_set_conv_nth)
    from body i have "?body i (?wb ! i) = Inr (outcomes ! i)" by blast
    from sell_batch_ok [OF this] o sent
    obtain ixs vs h where "outcome_ok connection' 1200 (?S ixs vs h) out"
      by auto
    from outcome_ok_sent [OF this sent] show ?thesis by auto
  qed
  have cause: "collect_sells sdk (?wb ! length outcomes) ([], []) = Inl e
      \<or> (\<exists>ixs validSigners.
            collect_sells sdk (?wb ! length outcomes) ([], []) = Inr (ixs, validSigners)
            \<and> ixs \<noteq> []
            \<and> (getLatestBlockhash connection' (length outcomes) = Inl e
                 \<or> (\<exists>blockhash tx.
                       getLatestBlockhash connection' (length outcomes) = Inr blockhash
                       \<and> tx = ?S ixs validSigners blockhash
                       \<and> (sign connection' tx = Some e
                            \<or> sign connection' tx = None
                               \<and> serialize_length connection' tx = Inl e))))"
    if a: "abort = Some e" for e
  proof -
    from fail a have f: "?body (length outcomes) (?wb ! length outcomes) = Inl e" by blast
    from sell_batch_Inl [OF f] show ?thesis by blast
  qed
  show "\<exists>outcomes abort.
        sell connection' sdk altAuthority lookupTableAccount' sellerWallets
          = Some (outcomes, abort)
        \<and> length outcomes \<le> length ?wb
        \<and> (abort = None \<longleftrightarrow> length outcomes = length ?wb)
        \<and> (\<forall>out\<in>set outcomes. \<forall>tx. sent_tx out = Some tx \<longrightarrow>
              (\<exists>size. serialize_length connection' tx = Inr size \<and> size \<le> 1200 \<and> size \<le> 1232))
        \<and> (\<forall>i<length outcomes. \<exists>ixs validSigners.
              collect_sells sdk (?wb ! i) ([], []) = Inr (ixs, validSigners)
              \<and> (ixs = [] \<and> outcomes ! i = NoInstructions
                   \<or> ixs \<noteq> []
                      \<and> (\<exists>blockhash tx size.
                            getLatestBlockhash connection' i = Inr blockhash
                            \<and> tx = ?S ixs validSigners blockhash
                            \<and> batch_tx (outcomes ! i) = Some tx
                            \<and> instructions tx = ixs
                            \<and> sign connection' tx = None
                            \<and> serialize_length connection' tx = Inr size
                            \<and> (1200 < size \<longleftrightarrow> outcomes ! i = Skipped tx)
                            \<and> (size \<le> 1200 \<longleftrightarrow> sent_tx (outcomes ! i) = Some tx))))
        \<and> (\<forall>e. abort = Some e \<longrightarrow>
              collect_sells sdk (?wb ! length outcomes) ([], []) = Inl e
              \<or> (\<exists>ixs validSigners.
                    collect_sells sdk (?wb ! length outcomes) ([], []) = Inr (ixs, validSigners)
                    \<and> ixs \<noteq> []
                    \<and> (getLatestBlockhash connection' (length outcomes) = Inl e
                         \<or> (\<exists>blockhash tx.
                               getLatestBlockhash connection' (length outcomes) = Inr blockhash
                               \<and> tx = ?S ixs validSigners blockhash
                               \<and> (sign connection' tx = Some e
                                    \<or> sign connection' tx = None
                                       \<and> serialize_length connection' tx = Inl e)))))"
    using run len ab bound each cause
    by (intro exI [of _ outcomes] exI [of _ abort] conjI) blast+
qed

theorem submitted_batches_within_ceiling_witness:
  "\<exists>outcomes tx1 tx2.
     sweep (test_connection :: (nat, nat transfer, string, string) connection)
       (\<lambda>n k. Inr 10000000) \<lparr>publicKey = 9, secretKey = ''payer''\<rparr> 0 ''table'' seven_wallets
       = Some (outcomes, None)
     \<and> length outcomes = 2
     \<and> outcomes ! 0 = Skipped tx1 \<and> length (instructions tx1) = 6
     \<and> sent_tx (outcomes ! 1) = Some tx2 \<and> length (instructions tx2) = 1"
proof -
  let ?c = "test_connection :: (nat, nat transfer, string, string) connection"
  let ?g = "\<lambda>(n::nat) (k::nat). Inr 10000000 :: thrown + int"
  let ?p = "\<lparr>publicKey = 9 :: nat, secretKey = ''payer''\<rparr>"
  let ?sdk = "\<lparr>getSPLBalance = (\<lambda>k :: nat. Inr None), token_units = (\<lambda>balance. Inr 0),
               getSellInstructionsByTokenAmount = (\<lambda>k amount. Inr ([] :: nat transfer list))\<rparr>"
  let ?tis = "map (\<lambda>w. \<lparr>fromPubkey = publicKey w, toPubkey = 0 :: nat, lamports = 7955720\<rparr>)
                seven_wallets"
  have tis: "fst (prepare_transfers ?g 0 0 seven_wallets ([], [])) = ?tis"
    by (simp add: prepare_seven_wallets)
  have l7: "length ?tis = 7" by (simp add: seven_wallets_def)
  have ch: "chunks MAX_WALLETS_PER_TRANSACTION ?tis = [take 6 ?tis, drop 6 ?tis]"
    unfolding MAX_WALLETS_PER_TRANSACTION_def by (rule chunks_seven [OF l7])
  have blockhash: "getLatestBlockhash ?c i \<noteq> Inl e" for i e
    by (simp add: test_connection_def)
  have signs: "sign ?c tx = None" for tx
    by (simp add: test_connection_def)
  have serializes: "serialize_length ?c tx = Inr (250 * length (instructions tx))" for tx
    by (simp add: test_connection_def)
  let ?ib = "chunks MAX_WALLETS_PER_TRANSACTION (fst (prepare_transfers ?g 0 0 seven_wallets ([], [])))"
  let ?sb = "chunks MAX_WALLETS_PER_TRANSACTION (snd (prepare_transfers ?g 0 0 seven_wallets ([], [])))"
  let ?T = "\<lambda>i h. batchTransaction ?p ''table'' (?ib ! i) (?sb ! i) h"
  from submitted_batches_within_ceiling
    [of ?c ?g ?p 0 "''table''" seven_wallets ?c ?sdk ?p "''table''" "[]", THEN conjunct1]
  obtain outcomes abort where
    run: "sweep ?c ?g ?p 0 ''table'' seven_wallets = Some (outcomes, abort)"
    and le: "length outcomes \<le> length ?ib"
    and ab': "abort = None \<longleftrightarrow> length outcomes = length ?ib"
    and bound: "\<forall>out\<in>set outcomes. \<forall>tx. sent_tx out = Some tx \<longrightarrow>
            (\<exists>size. serialize_length ?c tx = Inr size \<and> size \<le> 1232)"
    and each': "\<forall>i<length outcomes. \<exists>batchBlockhash tx size.
            getLatestBlockhash ?c i = Inr batchBlockhash
            \<and> tx = ?T i batchBlockhash
            \<and> batch_tx (outcomes ! i) = Some tx
            \<and> instructions tx = ?ib ! i
            \<and> sign ?c tx = None
            \<and> serialize_length ?c tx = Inr size
            \<and> (1232 < size \<longleftrightarrow> outcomes ! i = Skipped tx)
            \<and> (size \<le> 1232 \<longleftrightarrow> sent_tx (outcomes ! i) = Some tx)"
    and cause': "\<forall>e. abort = Some e \<longrightarrow>
            getLatestBlockhash ?c (length outcomes) = Inl e
            \<or> (\<exists>batchBlockhash tx.
                  getLatestBlockhash ?c (length outcomes) = Inr batchBlockhash
                  \<and> tx = ?T (length outcomes) batchBlockhash
                  \<and> (sign ?c tx = Some e
                       \<or> sign ?c tx = None \<and> serialize_length ?c tx = Inl e))"
    by (elim exE conjE)
  from ab' have ab: "abort = None \<longleftrightarrow>
        length outcomes = length (chunks MAX_WALLETS_PER_TRANSACTION ?tis)"
    by (simp only: tis)
  have each: "\<forall>i<length outcomes. \<exists>tx size.
            batch_tx (outcomes ! i) = Some tx
            \<and> instructions tx = chunks MAX_WALLETS_PER_TRANSACTION ?tis ! i
            \<and> serialize_length ?c tx = Inr size
            \<and> (1232 < size \<longleftrightarrow> outcomes ! i = Skipped tx)
            \<and> (size \<le> 1232 \<longleftrightarrow> sent_tx (outcomes ! i) = Some tx)"
    using each' unfolding tis by blast
  have cause: "\<forall>e. abort = Some e \<longrightarrow>
            getLatestBlockhash ?c (length outcomes) = Inl e
            \<or> (\<exists>tx. sign ?c tx = Some e
                       \<or> sign ?c tx = None \<and> serialize_length ?c tx = Inl e)"
    using cause' by blast
  have none: "abort = None"
  proof (cases abort)
    case None
    then show ?thesis .
  next
    case (Some e)
    with cause have "getLatestBlockhash ?c (length outcomes) = Inl e
            \<or> (\<exists>tx. sign ?c tx = Some e
                       \<or> sign ?c tx = None \<and> serialize_length ?c tx = Inl e)"
      by blast
    with blockhash signs serializes show ?thesis by simp
  qed
  with run have run': "sweep ?c ?g ?p 0 ''table'' seven_wallets = Some (outcomes, None)"
    by simp
  from none ab ch have len2: "length outcomes = 2" by simp
  have "(0::nat) < length outcomes" using len2 by simp
  with each have "\<exists>tx size. batch_tx (outcomes ! 0) = Some tx
            \<and> instructions tx = chunks MAX_WALLETS_PER_TRANSACTION ?tis ! 0
            \<and> serialize_length ?c tx = Inr size
            \<and> (1232 < size \<longleftrightarrow> outcomes ! 0 = Skipped tx)
            \<and> (size \<le> 1232 \<longleftrightarrow> sent_tx (outcomes ! 0) = Some tx)"
    by blast
  then obtain tx1 size1 where t1': "instructions tx1 = chunks MAX_WALLETS_PER_TRANSACTION ?tis ! 0"
    and z1: "serialize_length ?c tx1 = Inr size1"
    and t1s: "1232 < size1 \<longleftrightarrow> outcomes ! 0 = Skipped tx1"
    by blast
  from t1' have t1: "instructions tx1 = take 6 ?tis" by (simp add: ch)
  have "(1::nat) < length outcomes" using len2 by simp
  with each have "\<exists>tx size. batch_tx (outcomes ! 1) = Some tx
            \<and> instructions tx = chunks MAX_WALLETS_PER_TRANSACTION ?tis ! 1
            \<and> serialize_length ?c tx = Inr size
            \<and> (1232 < size \<longleftrightarrow> outcomes ! 1 = Skipped tx)
            \<and> (size \<le> 1232 \<longleftrightarrow> sent_tx (outcomes ! 1) = Some tx)"
    by blast
  then obtain tx2 size2 where t2': "instructions tx2 = chunks MAX_WALLETS_PER_TRANSACTION ?tis ! 1"
    and z2: "serialize_length ?c tx2 = Inr size2"
    and t2s: "size2 \<le> 1232 \<longleftrightarrow> sent_tx (outcomes ! 1) = Some tx2"
    by blast
  from t2' have t2: "instructions tx2 = drop 6 ?tis" by (simp add: ch)
  from z1 serializes [of tx1] t1 l7 have s1: "size1 = 1500" by simp
  from z2 serializes [of tx2] t2 l7 have s2: "size2 = 250" by simp
  from t1s s1 have o1: "outcomes ! 0 = Skipped tx1" by simp
  from t1 l7 have i1: "length (instructions tx1) = 6" by simp
  from t2s s2 have o2: "sent_tx (outcomes ! 1) = Some tx2" by simp
  from t2 l7 have i2: "length (instructions tx2) = 1" by simp
  show ?thesis
    by (intro exI [of _ outcomes] exI [of _ tx1] exI [of _ tx2] conjI)
       (rule run' len2 o1 i1 o2 i2)+
qed

text \<open>
  Two runs that are ended early. In the sweep, the library refuses to compile a message
  that does not fit its buffer: the error leaves the loop before the size is compared
  with 1232, and no batch is sent, the second, small one included. In the sell, a balance
  of 1.005 tokens gives a product that is not an integer, and \<open>BigInt\<close> throws before any
  transaction is built.
\<close>

lemma sweep_ends_on_oversized_message:
  "sweep
     ((test_connection :: (nat, nat transfer, string, string) connection)
        \<lparr>sign := (\<lambda>tx. if length (instructions tx) > 5
                        then Some (Error ''encoding overruns Uint8Array'') else None)\<rparr>)
     (\<lambda>n k. Inr 10000000) \<lparr>publicKey = 9, secretKey = ''payer''\<rparr> 0 ''table'' seven_wallets
     = Some ([], Some (Error ''encoding overruns Uint8Array''))"
proof -
  let ?tis = "map (\<lambda>w. \<lparr>fromPubkey = publicKey w, toPubkey = 0 :: nat, lamports = 7955720\<rparr>)
                seven_wallets"
  have l7: "length ?tis = 7" "length seven_wallets = 7" by (simp_all add: seven_wallets_def)
  have ne: "?tis \<noteq> []" using l7(1) by auto
  have six: "length (take 6 ?tis) = 6" using l7(1) by simp
  show ?thesis
    unfolding sweep_def prepare_seven_wallets
    using ne six
    by (simp add: MAX_WALLETS_PER_TRANSACTION_def batchArray_chunks chunks_seven [OF l7(1)]
        chunks_seven [OF l7(2)] send_batches.simps sweep_batch_def check_and_send_def
        batchTransaction_def test_connection_def del: length_take length_map)
qed

lemma sell_ends_on_fractional_amount:
  "sell (test_connection :: (nat, nat, string, string) connection)
     \<lparr>getSPLBalance = (\<lambda>k. Inr (Some (1005 / 1000))),
      token_units = (\<lambda>balance. Inl (Error
        ''The number 1005000.0000000001 cannot be converted to a BigInt because it is not an integer'')),
      getSellInstructionsByTokenAmount = (\<lambda>k amount. Inr [k])\<rparr>
     \<lparr>publicKey = 1, secretKey = ''k1''\<rparr> ''table'' [\<lparr>publicKey = 1, secretKey = ''k1''\<rparr>]
     = Some ([], Some (Error
        ''The number 1005000.0000000001 cannot be converted to a BigInt because it is not an integer''))"
proof -
  have "chunks 4 [\<lparr>publicKey = 1 :: nat, secretKey = ''k1''\<rparr>]
      = [[\<lparr>publicKey = 1, secretKey = ''k1''\<rparr>]]"
    by (simp add: chunks_step)
  then show ?thesis
    by (simp add: sell_def MAX_WALLETS_PER_TX_def batchArray_chunks sell_batch_def)
qed

text \<open>The transaction of every batch of the sweep that has an outcome is the one built by
  \<open>batchTransaction\<close> from the instruction batch and the signer batch of the same index.\<close>

lemma sweep_builds_batchTransaction:
  assumes "sweep connection getBalance payerWallet destination lookupTableAccount wallets
             = Some (outcomes, abort)"
    and "i < length outcomes"
  shows "\<exists>batchBlockhash.
           getLatestBlockhash connection i = Inr batchBlockhash
           \<and> batch_tx (outcomes ! i)
               = Some (batchTransaction payerWallet lookupTableAccount
                   (chunks MAX_WALLETS_PER_TRANSACTION
                      (fst (prepare_transfers getBalance destination 0 wallets ([], []))) ! i)
                   (chunks MAX_WALLETS_PER_TRANSACTION
                      (snd (prepare_transfers getBalance destination 0 wallets ([], []))) ! i)
                   batchBlockhash)"
proof -
  let ?ib = "chunks MAX_WALLETS_PER_TRANSACTION
               (fst (prepare_transfers getBalance destination 0 wallets ([], [])))"
  let ?sb = "chunks MAX_WALLETS_PER_TRANSACTION
               (snd (prepare_transfers getBalance destination 0 wallets ([], [])))"
  from sweep_run [of connection getBalance payerWallet destination lookupTableAccount wallets]
    assms(1)
  have loop: "send_batches connection payerWallet lookupTableAccount ?ib ?sb 0 []
            = (outcomes, abort)"
    by auto
  from send_batches_run [OF loop] assms(2)
  have "sweep_batch connection payerWallet lookupTableAccount ?ib ?sb i = Inr (outcomes ! i)"
    by auto
  from sweep_batch_ok [OF this] show ?thesis
    by (auto simp: outcome_ok_def)
qed

text \<open>
  Claim C10. In the sweep the instruction list and the signer list grow together and are
  cut into batches of the same size: there are as many signer batches as instruction
  batches, the signers of batch \<open>i\<close> are, position by position, the source wallets of
  the transfers of batch \<open>i\<close> (and are wallets of the input), and the transaction built
  for batch \<open>i\<close> is signed by the source wallet of every transfer it contains.
\<close>

theorem sweep_signers_match_instructions:
  "prepare_transfers getBalance destination 0 wallets ([], []) = (transferInstructions, signers)
   \<Longrightarrow> \<exists>instructionBatches signerBatches.
         batchArray transferInstructions MAX_WALLETS_PER_TRANSACTION = Some instructionBatches
         \<and> batchArray signers MAX_WALLETS_PER_TRANSACTION = Some signerBatches
         \<and> length signerBatches = length instructionBatches
         \<and> (\<forall>i<length instructionBatches.
               map publicKey (signerBatches ! i) = map fromPubkey (instructionBatches ! i)
               \<and> set (signerBatches ! i) \<subseteq> set wallets
               \<and> fromPubkey ` set (instructionBatches ! i)
                   \<subseteq> publicKey ` set (signed_by
                         (batchTransaction payerWallet lookupTableAccount
                            (instructionBatches ! i) (signerBatches ! i) batchBlockhash)))"
proof -
  assume p: "prepare_transfers getBalance destination 0 wallets ([], [])
      = (transferInstructions, signers)"
  let ?n = MAX_WALLETS_PER_TRANSACTION
  let ?ib = "chunks ?n transferInstructions"
  let ?sb = "chunks ?n signers"
  have pos: "0 < ?n" by (simp add: MAX_WALLETS_PER_TRANSACTION_def)
  from prepare_transfers_lockstep [OF p]
  have keys: "map fromPubkey transferInstructions = map publicKey signers"
    and sub: "set signers \<subseteq> set wallets"
    by simp_all
  have "map (map fromPubkey) ?ib = chunks ?n (map fromPubkey transferInstructions)"
    by (simp add: chunks_map)
  also have "\<dots> = map (map publicKey) ?sb"
    by (simp add: keys chunks_map)
  finally have m: "map (map fromPubkey) ?ib = map (map publicKey) ?sb" .
  then have len: "length ?sb = length ?ib"
    by (metis length_map)
  have each: "map publicKey (?sb ! i) = map fromPubkey (?ib ! i)
      \<and> set (?sb ! i) \<subseteq> set wallets
      \<and> fromPubkey ` set (?ib ! i)
          \<subseteq> publicKey ` set (signed_by
                (batchTransaction payerWallet lookupTableAccount (?ib ! i) (?sb ! i) batchBlockhash))"
    if i: "i < length ?ib" for i
  proof -
    from i len have i': "i < length ?sb" by simp
    have "map (map fromPubkey) ?ib ! i = map (map publicKey) ?sb ! i"
      by (simp only: m)
    with i i' have e: "map publicKey (?sb ! i) = map fromPubkey (?ib ! i)" by simp
    from i' have "?sb ! i \<in> set ?sb" by simp
    from set_chunks_subset [OF pos this] sub have s: "set (?sb ! i) \<subseteq> set wallets" by simp
    have "fromPubkey ` set (?ib ! i) = set (map fromPubkey (?ib ! i))" by simp
    also have "\<dots> = publicKey ` set (?sb ! i)" by (simp add: e [symmetric])
    finally have "fromPubkey ` set (?ib ! i)
        \<subseteq> publicKey ` set (signed_by
              (batchTransaction payerWallet lookupTableAccount (?ib ! i) (?sb ! i) batchBlockhash))"
      by (auto simp: batchTransaction_def)
    with e s show ?thesis by simp
  qed
  show ?thesis
  proof (intro exI conjI)
    show "batchArray transferInstructions ?n = Some ?ib" by (rule batchArray_chunks [OF pos])
    show "batchArray signers ?n = Some ?sb" by (rule batchArray_chunks [OF pos])
    show "length ?sb = length ?ib" by (rule len)
    show "\<forall>i<length ?ib.
        map publicKey (?sb ! i) = map fromPubkey (?ib ! i)
        \<and> set (?sb ! i) \<subseteq> set wallets
        \<and> fromPubkey ` set (?ib ! i)
            \<subseteq> publicKey ` set (signed_by
                  (batchTransaction payerWallet lookupTableAccount (?ib ! i) (?sb ! i) batchBlockhash))"
      using each by blast
  qed
qed

theorem sweep_signers_match_instructions_witness:
  "\<exists>instructionBatches signerBatches.
     batchArray
       (map (\<lambda>w. \<lparr>fromPubkey = publicKey w, toPubkey = 0, lamports = 7955720\<rparr>) seven_wallets)
       MAX_WALLETS_PER_TRANSACTION = Some instructionBatches
     \<and> batchArray seven_wallets MAX_WALLETS_PER_TRANSACTION = Some signerBatches
     \<and> length signerBatches = length instructionBatches
     \<and> length instructionBatches = 2
     \<and> map publicKey (signerBatches ! 0) = map fromPubkey (instructionBatches ! 0)
     \<and> map publicKey (signerBatches ! 1) = map fromPubkey (instructionBatches ! 1)
     \<and> map publicKey (signerBatches ! 1) = [7]"
proof -
  let ?tis = "map (\<lambda>w. \<lparr>fromPubkey = publicKey w, toPubkey = 0 :: nat, lamports = 7955720\<rparr>)
                seven_wallets"
  from sweep_signers_match_instructions
    [OF prepare_seven_wallets, of "\<lparr>publicKey = 9, secretKey = ''payer''\<rparr>" "''table''" "''hash''"]
  obtain ib sb where ib: "batchArray ?tis MAX_WALLETS_PER_TRANSACTION = Some ib"
    and sb: "batchArray seven_wallets MAX_WALLETS_PER_TRANSACTION = Some sb"
    and len: "length sb = length ib"
    and each: "\<forall>i<length ib. map publicKey (sb ! i) = map fromPubkey (ib ! i)"
    by blast
  have l7: "length ?tis = 7" "length seven_wallets = 7" by (simp_all add: seven_wallets_def)
  have "batchArray ?tis 6 = Some [take 6 ?tis, drop 6 ?tis]"
    by (simp add: batchArray_chunks chunks_seven [OF l7(1)])
  with ib have ibv: "ib = [take 6 ?tis, drop 6 ?tis]"
    by (simp add: MAX_WALLETS_PER_TRANSACTION_def)
  have "batchArray seven_wallets 6 = Some [take 6 seven_wallets, drop 6 seven_wallets]"
    by (simp add: batchArray_chunks chunks_seven [OF l7(2)])
  with sb have sbv: "sb = [take 6 seven_wallets, drop 6 seven_wallets]"
    by (simp add: MAX_WALLETS_PER_TRANSACTION_def)
  from ibv have l2: "length ib = 2" by simp
  with each have e: "map publicKey (sb ! 0) = map fromPubkey (ib ! 0)"
    "map publicKey (sb ! 1) = map fromPubkey (ib ! 1)"
    by simp_all
  have last: "map publicKey (sb ! 1) = [7]"
    unfolding sbv by (simp add: seven_wallets_def)
  show ?thesis
    by (intro exI [of _ ib] exI [of _ sb] conjI) (rule ib sb len l2 e last)+
qed

end
